theory Spec2Isabelle
  imports Complex_Main
begin

section \<open>Errors\<close>

text \<open>
  The Python exceptions that the modelled code can raise. A function that can raise
  returns \<open>error + 'a\<close>, with \<open>Inl\<close> for the exception.
\<close>

datatype error =
    AssertionError
  | ValueError
  | IndexError
  | KeyError
  | TypeError
  | RuntimeError
  | NotImplementedError

section \<open>The composite loss: \<open>AngleLoss\<close>\<close>

text \<open>
  \<^verbatim>\<open>
  class AngleLoss:
      def __init__(self, w1=1.0, w2=1.0, w3=1.0,
                   cosine_tau=20.0, ibn_tau=20.0, angle_tau=1.0, **kwargs): ...
  \<close>
  Tensor scalars are modelled as reals. The three loss terms are parameters of the
  model of \<open>__call__\<close>: each is a computation that returns a scalar or raises, so that
  a term that is not evaluated cannot influence the result, whatever it would have done.
\<close>

record AngleLoss =
  w1 :: real
  w2 :: real
  w3 :: real
  cosine_tau :: real
  ibn_tau :: real
  angle_tau :: real

text \<open>
  \<^verbatim>\<open>
  def __call__(self, y_true, y_pred, similar_matrix=None):
      loss = 0.
      if self.w1 > 0:
          loss += self.w1 * cosine_loss(y_true, y_pred, self.cosine_tau)
      if self.w2 > 0:
          loss += self.w2 * in_batch_negative_loss(y_true, y_pred, self.ibn_tau,
                                                   similar_matrix=similar_matrix)
      if self.w3 > 0:
          loss += self.w3 * angle_loss(y_true, y_pred, self.angle_tau)
      return loss
  \<close>
  \<open>add_term w t loss\<close> is one guarded statement: the term \<open>t\<close> is looked at only when
  \<open>w > 0\<close>, and an exception of the term leaves \<open>__call__\<close>.
\<close>

definition add_term :: "real \<Rightarrow> error + real \<Rightarrow> real \<Rightarrow> error + real" where
  "add_term w t loss =
     (if w > 0 then (case t of Inl e \<Rightarrow> Inl e | Inr v \<Rightarrow> Inr (loss + w * v))
      else Inr loss)"

definition AngleLoss_call ::
  "('l \<Rightarrow> 'p \<Rightarrow> real \<Rightarrow> error + real) \<Rightarrow>
   ('l \<Rightarrow> 'p \<Rightarrow> real \<Rightarrow> 's option \<Rightarrow> error + real) \<Rightarrow>
   ('l \<Rightarrow> 'p \<Rightarrow> real \<Rightarrow> error + real) \<Rightarrow>
   AngleLoss \<Rightarrow> 'l \<Rightarrow> 'p \<Rightarrow> 's option \<Rightarrow> error + real" where
  "AngleLoss_call cosine_loss in_batch_negative_loss angle_loss self y_true y_pred similar_matrix =
     (case add_term (w1 self) (cosine_loss y_true y_pred (cosine_tau self)) 0 of
        Inl e \<Rightarrow> Inl e
      | Inr loss1 \<Rightarrow>
          (case add_term (w2 self)
                  (in_batch_negative_loss y_true y_pred (ibn_tau self) similar_matrix) loss1 of
             Inl e \<Rightarrow> Inl e
           | Inr loss2 \<Rightarrow>
               add_term (w3 self) (angle_loss y_true y_pred (angle_tau self)) loss2))"

section \<open>The in-batch negative loss: \<open>make_target_matrix\<close>\<close>

text \<open>
  \<open>make_target_matrix\<close> computes on \<open>int32\<close> tensors (\<open>.int()\<close>). An \<open>int32\<close> value is an
  \<open>int\<close> in \<open>[-2^31, 2^31)\<close>, and every arithmetic operation wraps its result.
\<close>

definition wrap32 :: "int \<Rightarrow> int" where
  "wrap32 x = (x + 2 ^ 31) mod 2 ^ 32 - 2 ^ 31"

text \<open>
  The in-place operations \<open>idxs_1 *= y_true.T\<close> and \<open>idxs_2 *= y_true\<close> broadcast the
  label column (\<open>m\<close> rows) to the \<open>n\<close> indices: \<open>m = n\<close>, or a single row that is
  repeated; any other shape raises a \<open>RuntimeError\<close>.
\<close>

definition broadcast_rows :: "nat \<Rightarrow> 'a list \<Rightarrow> error + 'a list" where
  "broadcast_rows n ys =
     (if length ys = n then Inr ys
      else if length ys = 1 then Inr (replicate n (hd ys))
      else Inl RuntimeError)"

text \<open>
  \<^verbatim>\<open>
  def make_target_matrix(y_true):
      idxs = torch.arange(0, y_pred.shape[0]).int().to(device)
      y_true = y_true.int()
      idxs_1 = idxs[None, :]
      idxs_2 = (idxs + 1 - idxs % 2 * 2)[:, None]
      idxs_1 *= y_true.T
      idxs_1 += (y_true.T == 0).int() * -2
      idxs_2 *= y_true
      idxs_2 += (y_true == 0).int() * -1
      y_true = (idxs_1 == idxs_2).float()
      return y_true
  \<close>
  \<open>n\<close> is \<open>y_pred.shape[0]\<close> and the argument \<open>y_true\<close> is the column \<open>y_true.int()\<close>, one
  \<open>int32\<close> per row (the labels are Python integers, \<open>[int(data['label'])]\<close>, so the
  conversion keeps them). Row \<open>i\<close> of the result compares \<open>idxs_2[i]\<close> with every
  \<open>idxs_1[j]\<close>. Python's \<open>%\<close> and HOL's \<open>mod\<close> on \<open>int\<close> agree (the sign of the divisor).
\<close>

definition make_target_matrix :: "nat \<Rightarrow> int list \<Rightarrow> error + real list list" where
  "make_target_matrix n y_true =
     (case broadcast_rows n y_true of
        Inl e \<Rightarrow> Inl e
      | Inr ys \<Rightarrow>
          (let idxs = map (\<lambda>k. wrap32 (int k)) [0..<n];
               idxs_1 = idxs;
               idxs_2 = map (\<lambda>x. wrap32 (wrap32 (x + 1) - wrap32 (x mod 2 * 2))) idxs;
               idxs_1 = map2 (\<lambda>x y. wrap32 (x * y)) idxs_1 ys;
               idxs_1 = map2 (\<lambda>x y. wrap32 (x + wrap32 ((if y = 0 then 1 else 0) * (- 2))))
                          idxs_1 ys;
               idxs_2 = map2 (\<lambda>x y. wrap32 (x * y)) idxs_2 ys;
               idxs_2 = map2 (\<lambda>x y. wrap32 (x + wrap32 ((if y = 0 then 1 else 0) * (- 1))))
                          idxs_2 ys
           in Inr (map (\<lambda>b. map (\<lambda>a. if a = b then 1 else 0) idxs_1) idxs_2)))"

text \<open>
  The two matrices that \<open>in_batch_negative_loss\<close> builds from the labels:
  \<^verbatim>\<open>
  neg_mask = make_target_matrix(y_true == 0)
  y_true = make_target_matrix(y_true)
  \<close>
  (\<open>y_true == 0\<close> is a boolean tensor, which \<open>.int()\<close> turns into 0 and 1.)
\<close>

definition in_batch_neg_mask :: "nat \<Rightarrow> int list \<Rightarrow> error + real list list" where
  "in_batch_neg_mask n y_true =
     make_target_matrix n (map (\<lambda>y. if y = 0 then 1 else 0) y_true)"

definition in_batch_target :: "nat \<Rightarrow> int list \<Rightarrow> error + real list list" where
  "in_batch_target n y_true = make_target_matrix n y_true"

text \<open>
  The entries of \<open>idxs_1\<close> (column \<open>j\<close>) and of \<open>idxs_2\<close> (row \<open>i\<close>) after the in-place
  updates, for a row with the \<open>int32\<close> label \<open>y\<close>.
\<close>

definition encoded_column :: "nat \<Rightarrow> int \<Rightarrow> int" where
  "encoded_column j y =
     wrap32 (wrap32 (wrap32 (int j) * y) + wrap32 ((if y = 0 then 1 else 0) * (- 2)))"

definition encoded_row :: "nat \<Rightarrow> int \<Rightarrow> int" where
  "encoded_row i y =
     wrap32 (wrap32 (wrap32 (wrap32 (wrap32 (int i) + 1) - wrap32 (wrap32 (int i) mod 2 * 2)) * y)
             + wrap32 ((if y = 0 then 1 else 0) * (- 1)))"

text \<open>The interleaving rule: the partner of an even row is the next row, of an odd row the previous one.\<close>

definition partner :: "nat \<Rightarrow> nat" where
  "partner i = (if even i then i + 1 else i - 1)"

text \<open>
  The target matrix as claim C1 words it: entry \<open>(i, j)\<close> is 1 exactly when \<open>j\<close> is the
  partner of \<open>i\<close> and both rows have the same label-presence flag.
\<close>

definition claimed_target :: "int list \<Rightarrow> nat \<Rightarrow> nat \<Rightarrow> real" where
  "claimed_target ys i j =
     (if j = partner i \<and> ((ys ! i \<noteq> 0) = (ys ! j \<noteq> 0)) then 1 else 0)"

section \<open>The batch collator: \<open>AngleDataCollator\<close>\<close>

text \<open>
  The tokenizer's output for one text is a dictionary of parallel lists; \<open>token_type_ids\<close>
  is there for some tokenizers only. A row of the batch adds the labels, and a feature
  (the tokenization adapter's output for a pair) adds \<open>seperate_ids\<close>, which is 0 on the
  tokens of text1 and 1 on those of text2.
\<close>

record tok =
  input_ids :: "int list"
  attention_mask :: "int list"
  token_type_ids :: "int list option"

record row = tok +
  labels :: "int list"

record feature = row +
  seperate_ids :: "int list"

text \<open>Python's \<open>xs.index(x)\<close>: the first position of \<open>x\<close>, \<open>None\<close> where Python raises \<open>ValueError\<close>.\<close>

fun list_index :: "'a \<Rightarrow> 'a list \<Rightarrow> nat option" where
  "list_index x [] = None"
| "list_index x (y # ys) = (if y = x then Some 0 else map_option Suc (list_index x ys))"

text \<open>
  The body of the collator's loop for one feature, up to the two new rows:
  \<^verbatim>\<open>
  assert len(seperate_ids) == len(input_ids) == len(attention_mask)
  has_token_type_ids = False
  if "token_type_ids" in feature:
      has_token_type_ids = True
      token_type_ids = feature['token_type_ids']
      assert len(token_type_ids) == len(input_ids)
  first_one_idx = seperate_ids.index(1)
  new_feature = {}
  new_feature['input_ids'] = input_ids[:first_one_idx]
  new_feature['attention_mask'] = attention_mask[:first_one_idx]
  if has_token_type_ids:
      new_feature['token_type_ids'] = token_type_ids[:first_one_idx]
  new_feature['labels'] = feature['labels']
  ...
  new_feature = {}
  new_feature['input_ids'] = input_ids[first_one_idx:]
  ... (the same with [first_one_idx:])
  \<close>
\<close>

definition split_feature :: "feature \<Rightarrow> error + (row \<times> row)" where
  "split_feature f =
     (if \<not> (length (seperate_ids f) = length (input_ids f) \<and>
             length (input_ids f) = length (attention_mask f))
      then Inl AssertionError
      else if (case token_type_ids f of None \<Rightarrow> False
               | Some t \<Rightarrow> length t \<noteq> length (input_ids f))
      then Inl AssertionError
      else
        (case list_index 1 (seperate_ids f) of
           None \<Rightarrow> Inl ValueError
         | Some first_one_idx \<Rightarrow>
             Inr (\<lparr>input_ids = take first_one_idx (input_ids f),
                   attention_mask = take first_one_idx (attention_mask f),
                   token_type_ids = map_option (take first_one_idx) (token_type_ids f),
                   labels = labels f\<rparr>,
                  \<lparr>input_ids = drop first_one_idx (input_ids f),
                   attention_mask = drop first_one_idx (attention_mask f),
                   token_type_ids = map_option (drop first_one_idx) (token_type_ids f),
                   labels = labels f\<rparr>)))"

text \<open>
  \<open>batch_text_set\<close> is a \<open>defaultdict(list)\<close> keyed by the token tuple; a Python dictionary
  keeps its keys in insertion order, so it is an association list.
  \<open>batch_text_set[key].append(v)\<close>:
\<close>

fun dict_append :: "'k \<Rightarrow> 'v \<Rightarrow> ('k \<times> 'v list) list \<Rightarrow> ('k \<times> 'v list) list" where
  "dict_append k v [] = [(k, [v])]"
| "dict_append k v ((k', vs) # d) =
     (if k' = k then (k', vs @ [v]) # d else (k', vs) # dict_append k v d)"

record collate_state =
  new_features :: "row list"
  batch_text_set :: "(int list \<times> nat list) list"
  has_token_type_ids :: bool

text \<open>
  \<^verbatim>\<open>
  for i, feature in enumerate(features, 1):
      ...
      new_features.append(new_feature)
      batch_text_set[tuple(new_feature['input_ids'])].append(2 * (i - 1))
      ...
      new_features.append(new_feature)
      batch_text_set[tuple(new_feature['input_ids'])].append(2 * (i - 1) + 1)
  \<close>
  An exception leaves the loop.
\<close>

fun collate_loop :: "feature list \<Rightarrow> nat \<Rightarrow> collate_state \<Rightarrow> error + collate_state" where
  "collate_loop [] i st = Inr st"
| "collate_loop (f # fs) i st =
     (case split_feature f of
        Inl e \<Rightarrow> Inl e
      | Inr (r1, r2) \<Rightarrow>
          collate_loop fs (i + 1)
            \<lparr>new_features = new_features st @ [r1, r2],
             batch_text_set =
               dict_append (input_ids r2) (2 * (i - 1) + 1)
                 (dict_append (input_ids r1) (2 * (i - 1)) (batch_text_set st)),
             has_token_type_ids = (token_type_ids f \<noteq> None)\<rparr>)"

text \<open>
  \<open>similar_matrix[i, j] = 1.0\<close> on a numpy array; an index out of range raises
  \<open>IndexError\<close>.
\<close>

definition set_entry :: "real list list \<Rightarrow> nat \<Rightarrow> nat \<Rightarrow> error + real list list" where
  "set_entry m i j =
     (if i < length m \<and> j < length (m ! i) then Inr (m[i := (m ! i)[j := 1]])
      else Inl IndexError)"

text \<open>
  \<^verbatim>\<open>
  for _, ids in batch_text_set.items():
      if ids:
          for i in ids:
              for j in ids:
                  if i == j:
                      continue
                  similar_matrix[i, j] = 1.0
  \<close>
  One function per loop, innermost first.
\<close>

fun mark_row :: "nat \<Rightarrow> nat list \<Rightarrow> real list list \<Rightarrow> error + real list list" where
  "mark_row i [] m = Inr m"
| "mark_row i (j # js) m =
     (if i = j then mark_row i js m
      else (case set_entry m i j of Inl e \<Rightarrow> Inl e | Inr m' \<Rightarrow> mark_row i js m'))"

fun mark_ids :: "nat list \<Rightarrow> nat list \<Rightarrow> real list list \<Rightarrow> error + real list list" where
  "mark_ids [] ids m = Inr m"
| "mark_ids (i # rest) ids m =
     (case mark_row i ids m of Inl e \<Rightarrow> Inl e | Inr m' \<Rightarrow> mark_ids rest ids m')"

fun mark_items :: "('k \<times> nat list) list \<Rightarrow> real list list \<Rightarrow> error + real list list" where
  "mark_items [] m = Inr m"
| "mark_items ((k, ids) # d) m =
     (if ids \<noteq> [] then
        (case mark_ids ids ids m of Inl e \<Rightarrow> Inl e | Inr m' \<Rightarrow> mark_items d m')
      else mark_items d m)"

text \<open>
  The batch. \<open>tokenizer.pad\<close> belongs to the tokenizer, not to this repository: it is the
  parameter \<open>pad\<close>, applied to the rows' \<open>input_ids\<close>, to their \<open>attention_mask\<close> and, when
  the last feature had them, to their \<open>token_type_ids\<close> (a row without them raises
  \<open>KeyError\<close>). \<open>torch.Tensor\<close> of the rows' labels raises \<open>ValueError\<close> when the label
  lists differ in length.
\<close>

record batch =
  batch_input_ids :: "int list list"
  batch_attention_mask :: "int list list"
  batch_token_type_ids :: "int list list option"
  batch_labels :: "int list list"
  batch_similar_matrix :: "real list list"

definition AngleDataCollator_call ::
  "(int list list \<Rightarrow> int list list) \<Rightarrow> bool \<Rightarrow> feature list \<Rightarrow> error + batch" where
  "AngleDataCollator_call pad compute_similar_matrix features =
     (case features of
        [] \<Rightarrow> Inl IndexError
      | f0 # _ \<Rightarrow>
          (case collate_loop features 1
                  \<lparr>new_features = [], batch_text_set = [],
                   has_token_type_ids = (token_type_ids f0 \<noteq> None)\<rparr> of
             Inl e \<Rightarrow> Inl e
           | Inr st \<Rightarrow>
               (let n = length (new_features st);
                    zeros = replicate n (replicate n 0)
                in case (if compute_similar_matrix then mark_items (batch_text_set st) zeros
                         else Inr zeros) of
                     Inl e \<Rightarrow> Inl e
                   | Inr sm \<Rightarrow>
                       (case (if has_token_type_ids st
                              then (case those (map token_type_ids (new_features st)) of
                                      None \<Rightarrow> Inl KeyError
                                    | Some tts \<Rightarrow> Inr (Some (pad tts)))
                              else Inr None) of
                          Inl e \<Rightarrow> Inl e
                        | Inr tt \<Rightarrow>
                            (if \<exists>r \<in> set (new_features st).
                                  length (labels r) \<noteq> length (labels (hd (new_features st)))
                             then Inl ValueError
                             else Inr \<lparr>batch_input_ids = pad (map input_ids (new_features st)),
                                       batch_attention_mask =
                                         pad (map attention_mask (new_features st)),
                                       batch_token_type_ids = tt,
                                       batch_labels = map labels (new_features st),
                                       batch_similar_matrix = sm\<rparr>)))))"

section \<open>Predicates used in the proofs\<close>

text \<open>An \<open>n\<close> by \<open>n\<close> matrix as a list of rows.\<close>

definition square :: "nat \<Rightarrow> 'a list list \<Rightarrow> bool" where
  "square n m = (length m = n \<and> (\<forall>r \<in> set m. length r = n))"

text \<open>The positions of the rows that hold the token sequence \<open>k\<close>.\<close>

definition positions :: "'a \<Rightarrow> 'a list \<Rightarrow> nat set" where
  "positions k rs = {p. p < length rs \<and> rs ! p = k}"

text \<open>
  The invariant of \<open>batch_text_set\<close>: its keys are distinct, and the list stored under a key
  holds exactly the positions of the rows with that token sequence.
\<close>

definition text_set_ok :: "('k \<times> nat list) list \<Rightarrow> 'k list \<Rightarrow> bool" where
  "text_set_ok d rs =
     (distinct (map fst d) \<and>
      (\<forall>k. set (case map_of d k of None \<Rightarrow> [] | Some ids \<Rightarrow> ids) = positions k rs))"

text \<open>The two rows that the loop appends for a feature (none when the split raises).\<close>

definition rows_of :: "feature \<Rightarrow> row list" where
  "rows_of f = (case split_feature f of Inl e \<Rightarrow> [] | Inr (r1, r2) \<Rightarrow> [r1, r2])"

text \<open>
  A valid feature, as the tokenization adapter builds it: parallel lists of equal length,
  a segment id 1 (text2 has a token), and one label. A valid batch is a non-empty list of
  valid features that all come from one tokenizer, so \<open>token_type_ids\<close> is present in all
  of them or in none.
\<close>

definition valid_feature :: "feature \<Rightarrow> bool" where
  "valid_feature f =
     (length (seperate_ids f) = length (input_ids f) \<and>
      length (input_ids f) = length (attention_mask f) \<and>
      (case token_type_ids f of None \<Rightarrow> True | Some t \<Rightarrow> length t = length (input_ids f)) \<and>
      1 \<in> set (seperate_ids f) \<and>
      length (labels f) = 1)"

definition valid_features :: "feature list \<Rightarrow> bool" where
  "valid_features fs =
     (fs \<noteq> [] \<and> list_all valid_feature fs \<and>
      list_all (\<lambda>f. (token_type_ids f = None) = (token_type_ids (hd fs) = None)) fs)"

section \<open>Example inputs\<close>

text \<open>
  Three features for the concrete instances of the theorems: a pair of equal texts, a pair
  that shares its first text with it, and a feature whose text2 has no token.
\<close>

abbreviation example_pair_same :: feature where
  "example_pair_same \<equiv>
     \<lparr>input_ids = [101, 5, 102, 101, 5, 102], attention_mask = [1, 1, 1, 1, 1, 1],
      token_type_ids = None, labels = [1], seperate_ids = [0, 0, 0, 1, 1, 1]\<rparr>"

abbreviation example_pair_other :: feature where
  "example_pair_other \<equiv>
     \<lparr>input_ids = [101, 5, 102, 101, 7], attention_mask = [1, 1, 1, 1, 1],
      token_type_ids = None, labels = [0], seperate_ids = [0, 0, 0, 1, 1]\<rparr>"

abbreviation example_no_text2 :: feature where
  "example_no_text2 \<equiv>
     \<lparr>input_ids = [101, 5], attention_mask = [1, 1],
      token_type_ids = None, labels = [0], seperate_ids = [0, 0]\<rparr>"

section \<open>The tokenization adapter: \<open>AngleDataTokenizer\<close>\<close>

text \<open>
  Python's slices \<open>xs[:k]\<close> and \<open>xs[k:]\<close>: a negative \<open>k\<close> counts from the end, and a bound
  outside the list is clipped.
\<close>

definition py_upto :: "'a list \<Rightarrow> int \<Rightarrow> 'a list" where
  "py_upto xs k = (if k < 0 then take (nat (int (length xs) + k)) xs else take (nat k) xs)"

definition py_from :: "'a list \<Rightarrow> int \<Rightarrow> 'a list" where
  "py_from xs k = (if k < 0 then drop (nat (int (length xs) + k)) xs else drop (nat k) xs)"

text \<open>
  \<^verbatim>\<open>
  @staticmethod
  def fix_bad_data(token_ids, prompt_ids):
      bad_index = -1
      for idx in range(len(token_ids) - 1, -1, -1):
          try:
              bad_index = prompt_ids.index(token_ids[idx])
          except ValueError:
              break
      if bad_index == -1:
          return token_ids
      to_fix_ids = prompt_ids[bad_index:]
      return token_ids[:len(token_ids) - len(to_fix_ids)] + to_fix_ids
  \<close>
  The loop visits the tokens from the last to the first: \<open>scan_bad_index\<close> runs over the
  reversed list, and stops at the first token that is not in \<open>prompt_ids\<close>.
\<close>

fun scan_bad_index :: "int list \<Rightarrow> int list \<Rightarrow> int \<Rightarrow> int" where
  "scan_bad_index [] prompt_ids bad_index = bad_index"
| "scan_bad_index (t # ts) prompt_ids bad_index =
     (case list_index t prompt_ids of
        None \<Rightarrow> bad_index
      | Some k \<Rightarrow> scan_bad_index ts prompt_ids (int k))"

definition fix_bad_data :: "int list \<Rightarrow> int list \<Rightarrow> int list" where
  "fix_bad_data token_ids prompt_ids =
     (let bad_index = scan_bad_index (rev token_ids) prompt_ids (- 1)
      in if bad_index = - 1 then token_ids
         else (let to_fix_ids = py_from prompt_ids bad_index
               in py_upto token_ids (int (length token_ids) - int (length to_fix_ids))
                    @ to_fix_ids))"

text \<open>What the adapter prints.\<close>

datatype message =
    BadData "int list" "int list"
  | FixedIt
  | NewData "int list" "int list"
  | FailedToFix

text \<open>
  The validation guard of \<open>__call__\<close>, for one of the two texts (the code has it twice, for
  \<open>tok1\<close> and for \<open>tok2\<close>):
  \<^verbatim>\<open>
  if tok1['input_ids'][-1] != self.prompt_template_tok['input_ids'][-1]:
      print('bad data:', ...)
      tok1['input_ids'] = self.fix_bad_data(tok1['input_ids'],
                                            self.prompt_template_tok['input_ids'])
      try:
          assert len(tok1['input_ids']) == len(tok1['attention_mask'])
          assert tok1['input_ids'][-1] == self.prompt_template_tok['input_ids'][-1]
          print('fixed it ;)')
          print('new data:', ...)
      except AssertionError:
          print('failed to fix it :()')
  \<close>
  \<open>xs[-1]\<close> on an empty list raises \<open>IndexError\<close>, which \<open>except AssertionError\<close> does not
  catch. The result is the dictionary after the guard and the lines printed.
\<close>

definition template_guard :: "tok \<Rightarrow> int list \<Rightarrow> error + (tok \<times> message list)" where
  "template_guard tk prompt_ids =
     (if input_ids tk = [] \<or> prompt_ids = [] then Inl IndexError
      else if last (input_ids tk) \<noteq> last prompt_ids then
        (let fixed = fix_bad_data (input_ids tk) prompt_ids;
             tk' = tk\<lparr>input_ids := fixed\<rparr>
         in if length fixed \<noteq> length (attention_mask tk)
            then Inr (tk', [BadData (input_ids tk) prompt_ids, FailedToFix])
            else if fixed = [] then Inl IndexError
            else if last fixed \<noteq> last prompt_ids
            then Inr (tk', [BadData (input_ids tk) prompt_ids, FailedToFix])
            else Inr (tk', [BadData (input_ids tk) prompt_ids, FixedIt,
                            NewData fixed prompt_ids]))
      else Inr (tk, []))"

text \<open>
  The end of \<open>__call__\<close>, from the two tokenizations \<open>tok1\<close> and \<open>tok2\<close> of the (wrapped)
  texts, which the external tokenizer computes:
  \<^verbatim>\<open>
  tok = {}
  for key, val in tok1.items():
      tok[key] = val + tok2[key]
  tok['labels'] = [int(data['label'])]
  tok['seperate_ids'] = [0] * len(tok1['input_ids']) + [1] * len(tok2['input_ids'])
  return tok
  \<close>
  \<open>prompt_template_tok\<close> is \<open>None\<close> when no prompt template is configured.
\<close>

definition merge_tok :: "tok \<Rightarrow> tok \<Rightarrow> int \<Rightarrow> error + feature" where
  "merge_tok tok1 tok2 label =
     (case (case token_type_ids tok1 of
              None \<Rightarrow> Inr None
            | Some t1 \<Rightarrow>
                (case token_type_ids tok2 of
                   None \<Rightarrow> Inl KeyError
                 | Some t2 \<Rightarrow> Inr (Some (t1 @ t2)))) of
        Inl e \<Rightarrow> Inl e
      | Inr tt \<Rightarrow>
          Inr \<lparr>input_ids = input_ids tok1 @ input_ids tok2,
               attention_mask = attention_mask tok1 @ attention_mask tok2,
               token_type_ids = tt,
               labels = [label],
               seperate_ids = replicate (length (input_ids tok1)) 0
                                @ replicate (length (input_ids tok2)) 1\<rparr>)"

definition AngleDataTokenizer_finish ::
  "int list option \<Rightarrow> tok \<Rightarrow> tok \<Rightarrow> int \<Rightarrow> error + (feature \<times> message list)" where
  "AngleDataTokenizer_finish prompt_template_tok tok1 tok2 label =
     (case prompt_template_tok of
        None \<Rightarrow> map_sum id (\<lambda>f. (f, [])) (merge_tok tok1 tok2 label)
      | Some prompt_ids \<Rightarrow>
          (case template_guard tok1 prompt_ids of
             Inl e \<Rightarrow> Inl e
           | Inr (tok1', out1) \<Rightarrow>
               (case template_guard tok2 prompt_ids of
                  Inl e \<Rightarrow> Inl e
                | Inr (tok2', out2) \<Rightarrow>
                    map_sum id (\<lambda>f. (f, out1 @ out2)) (merge_tok tok1' tok2' label))))"

section \<open>The pooling adapter: \<open>Pooler\<close>\<close>

text \<open>
  A tensor of hidden states has the shape (batch, tokens, hidden size). It is the list of
  its rows, each a list of token vectors, together with its token dimension: the rows
  alone would not tell the shape \<open>(0, T, H)\<close> of an empty batch from \<open>(0, 0, H)\<close>, and
  indexing or reducing over the tokens raises on a token dimension of size 0 whatever the
  batch size is. The tensor \<open>input_ids\<close> has the shape (batch, tokens) and is modelled the
  same way. In a tensor every row has the length of the token dimension. Vector entries
  are reals.
\<close>

record hidden_states =
  seq_len :: nat
  vectors :: "real list list list"

record token_ids =
  ids_len :: nat
  id_rows :: "int list list"

text \<open>
  \<open>inputs\<close> is a dictionary: its key \<open>input_ids\<close> may be missing, hold \<open>None\<close> or hold a
  tensor. The backbone is external: \<open>model\<close> gives the tensor that \<open>__call__\<close> reads from
  its output (\<open>hidden_states[-1]\<close> on the decoder-only path, \<open>last_hidden_state\<close>
  otherwise), and \<open>pad_token_id\<close> is \<open>model.config.pad_token_id\<close>.
\<close>

datatype input_ids_entry = Absent | IsNone | Ids token_ids

record model_inputs =
  model_input_ids :: input_ids_entry

record Pooler =
  model :: "model_inputs \<Rightarrow> hidden_states"
  pad_token_id :: "int option"
  pooling_strategy :: "string option"
  is_llm :: bool

text \<open>Python's \<open>xs[i]\<close>: a negative index counts from the end, out of range raises.\<close>

definition py_index :: "'a list \<Rightarrow> int \<Rightarrow> error + 'a" where
  "py_index xs i =
     (if 0 \<le> i \<and> i < int (length xs) then Inr (xs ! nat i)
      else if i < 0 \<and> - int (length xs) \<le> i then Inr (xs ! nat (int (length xs) + i))
      else Inl IndexError)"

text \<open>A computation per row of the batch; the first exception leaves.\<close>

fun sequence_err :: "(error + 'a) list \<Rightarrow> error + 'a list" where
  "sequence_err [] = Inr []"
| "sequence_err (x # xs) =
     (case x of
        Inl e \<Rightarrow> Inl e
      | Inr v \<Rightarrow> (case sequence_err xs of Inl e \<Rightarrow> Inl e | Inr vs \<Rightarrow> Inr (v # vs)))"

text \<open>
  An operation that needs a token in every row: \<open>outputs[:, 0]\<close>, \<open>outputs[:, -1]\<close>,
  \<open>hidden_states[..., -1]\<close> and \<open>torch.max(outputs, dim=1)\<close> raise \<open>IndexError\<close> when the
  token dimension has size 0, also on an empty batch.
\<close>

definition on_tokens ::
  "hidden_states \<Rightarrow> (real list list \<Rightarrow> error + 'a) \<Rightarrow> error + 'a list" where
  "on_tokens hs f =
     (if seq_len hs = 0 then Inl IndexError else sequence_err (map f (vectors hs)))"

text \<open>
  \<open>torch.eq(input_ids, pad_token_id).long().argmax(-1) - 1\<close>: \<open>argmax\<close> raises on a token
  dimension of size 0; for a row it gives the first position of the maximum, that is the
  first pad token, or 0 when the row has none.
\<close>

definition sequence_length :: "int \<Rightarrow> int list \<Rightarrow> error + int" where
  "sequence_length pad row =
     (if row = [] then Inl IndexError
      else Inr ((case list_index pad row of None \<Rightarrow> 0 | Some k \<Rightarrow> int k) - 1))"

definition sequence_lengths_of :: "int \<Rightarrow> token_ids \<Rightarrow> error + int list" where
  "sequence_lengths_of pad t =
     (if ids_len t = 0 then Inl IndexError
      else sequence_err (map (sequence_length pad) (id_rows t)))"

text \<open>
  \<open>sequence_lengths\<close> is the number \<open>-1\<close> or a tensor with one index per row of
  \<open>input_ids\<close>. \<open>hidden_states[torch.arange(batch_size), sequence_lengths]\<close> with the
  number selects the last token of every row. With a tensor the two index tensors are
  broadcast: equal lengths pair up, a single index serves every row, a single row serves
  every index, other shapes raise \<open>IndexError\<close>; every pair is checked against the row.
\<close>

datatype seq_lengths = Scalar int | Tensor "int list"

definition index_rows :: "hidden_states \<Rightarrow> seq_lengths \<Rightarrow> error + real list list" where
  "index_rows hs sl =
     (case sl of
        Scalar s \<Rightarrow>
          (if - int (seq_len hs) \<le> s \<and> s < int (seq_len hs)
           then sequence_err (map (\<lambda>row. py_index row s) (vectors hs))
           else Inl IndexError)
      | Tensor ss \<Rightarrow>
          (if length ss = length (vectors hs)
           then sequence_err (map2 py_index (vectors hs) ss)
           else if length ss = 1
           then sequence_err (map (\<lambda>row. py_index row (hd ss)) (vectors hs))
           else if length (vectors hs) = 1
           then sequence_err (map (py_index (hd (vectors hs))) ss)
           else Inl IndexError))"

text \<open>
  The reductions over the token dimension, for one row. \<open>torch.mean\<close> does not raise on
  an empty token dimension (it gives NaN, which the reals do not have: the model gives
  the empty vector there).
\<close>

definition vec_add :: "real list \<Rightarrow> real list \<Rightarrow> real list" where
  "vec_add u v = map2 (+) u v"

definition mean_tokens :: "real list list \<Rightarrow> real list" where
  "mean_tokens row =
     (case row of
        [] \<Rightarrow> []
      | v # vs \<Rightarrow> map (\<lambda>s. s / real (length row)) (fold (\<lambda>u acc. vec_add acc u) vs v))"

definition max_tokens :: "real list list \<Rightarrow> error + real list" where
  "max_tokens row =
     (case row of
        [] \<Rightarrow> Inl IndexError
      | v # vs \<Rightarrow> Inr (fold (\<lambda>u acc. map2 max acc u) vs v))"

definition cls_avg_tokens :: "real list list \<Rightarrow> error + real list" where
  "cls_avg_tokens row =
     (case py_index row 0 of
        Inl e \<Rightarrow> Inl e
      | Inr c \<Rightarrow> Inr (map (\<lambda>s. s / 2) (vec_add c (mean_tokens row))))"

text \<open>
  \<^verbatim>\<open>
  def __call__(self, inputs) -> Any:
      if self.is_llm:
          hidden_states = self.model(output_hidden_states=True, return_dict=True,
                                     **inputs).hidden_states[-1]
          batch_size = hidden_states.shape[0]
          if self.model.config.pad_token_id is None and batch_size != 1:
              raise ValueError("Cannot handle batch sizes > 1 if no padding token is defined.")
          if self.model.config.pad_token_id is None:
              sequence_lengths = -1
          else:
              if inputs['input_ids'] is not None:
                  sequence_lengths = (torch.eq(inputs['input_ids'],
                      self.model.config.pad_token_id).long().argmax(-1) - 1).to(...)
              else:
                  sequence_lengths = -1
          outputs = hidden_states[torch.arange(batch_size, ...), sequence_lengths]
      else:
          outputs = self.model(**inputs).last_hidden_state
          if self.pooling_strategy == 'cls':
              outputs = outputs[:, 0]
          elif self.pooling_strategy == 'cls_avg':
              outputs = (outputs[:, 0] + torch.mean(outputs, dim=1)) / 2.0
          elif self.pooling_strategy == 'last':
              outputs = outputs[:, -1]
          elif self.pooling_strategy == 'avg':
              outputs = torch.mean(outputs, dim=1)
          elif self.pooling_strategy == 'max':
              outputs, _ = torch.max(outputs, dim=1)
          else:
              raise NotImplementedError('please specify pooling_strategy from ...')
      return outputs
  \<close>
  \<open>inputs['input_ids']\<close> raises \<open>KeyError\<close> when the key is missing.
\<close>

definition Pooler_call :: "Pooler \<Rightarrow> model_inputs \<Rightarrow> error + real list list" where
  "Pooler_call self inputs =
     (if is_llm self then
        (let hidden = model self inputs;
             batch_size = length (vectors hidden)
         in if pad_token_id self = None \<and> batch_size \<noteq> 1 then Inl ValueError
            else
              (case (case pad_token_id self of
                       None \<Rightarrow> Inr (Scalar (- 1))
                     | Some pad \<Rightarrow>
                         (case model_input_ids inputs of
                            Absent \<Rightarrow> Inl KeyError
                          | Ids t \<Rightarrow>
                              (case sequence_lengths_of pad t of
                                 Inl e \<Rightarrow> Inl e
                               | Inr ss \<Rightarrow> Inr (Tensor ss))
                          | IsNone \<Rightarrow> Inr (Scalar (- 1)))) of
                 Inl e \<Rightarrow> Inl e
               | Inr sequence_lengths \<Rightarrow> index_rows hidden sequence_lengths))
      else
        (let outputs = model self inputs
         in if pooling_strategy self = Some ''cls''
            then on_tokens outputs (\<lambda>row. py_index row 0)
            else if pooling_strategy self = Some ''cls_avg''
            then on_tokens outputs cls_avg_tokens
            else if pooling_strategy self = Some ''last''
            then on_tokens outputs (\<lambda>row. py_index row (- 1))
            else if pooling_strategy self = Some ''avg''
            then Inr (map mean_tokens (vectors outputs))
            else if pooling_strategy self = Some ''max''
            then on_tokens outputs max_tokens
            else Inl NotImplementedError))"

text \<open>The pooling strategies that \<open>__call__\<close> knows.\<close>

definition known_strategy :: "string option \<Rightarrow> bool" where
  "known_strategy s =
     (s = Some ''cls'' \<or> s = Some ''cls_avg'' \<or> s = Some ''last'' \<or> s = Some ''avg''
      \<or> s = Some ''max'')"

text \<open>
  A batch as the callers of the pooler form it: at least one row and at least one token,
  the hidden states a tensor, and, where the decoder-only path reads \<open>input_ids\<close> (a pad
  token is defined), the key present and its tensor of the shape of the hidden states
  (the backbone gives one hidden vector per input token).
\<close>

definition ids_like :: "hidden_states \<Rightarrow> input_ids_entry \<Rightarrow> bool" where
  "ids_like hs entry =
     (case entry of
        Absent \<Rightarrow> False
      | IsNone \<Rightarrow> True
      | Ids t \<Rightarrow>
          ids_len t = seq_len hs \<and> length (id_rows t) = length (vectors hs) \<and>
          list_all (\<lambda>row. length row = ids_len t) (id_rows t))"

definition proper_batch :: "Pooler \<Rightarrow> model_inputs \<Rightarrow> bool" where
  "proper_batch self inputs =
     (vectors (model self inputs) \<noteq> [] \<and> 0 < seq_len (model self inputs) \<and>
      list_all (\<lambda>row. length row = seq_len (model self inputs)) (vectors (model self inputs)) \<and>
      (\<not> is_llm self \<or> pad_token_id self = None
       \<or> ids_like (model self inputs) (model_input_ids inputs)))"

section \<open>The configuration of an \<open>AnglE\<close> instance\<close>

text \<open>
  The values that the configuration dictionary \<open>self.__cfg\<close> holds (it is written as JSON),
  and the dictionary as a map from its keys.
\<close>

datatype cfg_value =
    CNone
  | CBool bool
  | CInt int
  | CReal real
  | CStr string
  | CDict "(string \<times> cfg_value) list"

type_synonym config = "string \<Rightarrow> cfg_value option"

text \<open>\<open>d.update(kwargs)\<close>: the later value of a key wins.\<close>

definition dict_update :: "config \<Rightarrow> (string \<times> cfg_value) list \<Rightarrow> config" where
  "dict_update d kwargs = fold (\<lambda>(k, v) m. m(k \<mapsto> v)) kwargs d"

text \<open>
  The part of \<open>__init__\<close> that builds the configuration:
  \<^verbatim>\<open>
  lora_config = None
  if apply_lora:
      lora_config = {'task_type': TaskType.FEATURE_EXTRACTION, 'r': 32,
                     'lora_alpha': 32, 'lora_dropout': 0.1}
      if lora_config_kwargs is not None:
          lora_config.update(lora_config_kwargs)
  ...
  model_kwargs = model_kwargs if model_kwargs is not None else {}
  ...
  if self.apply_lora:
      lora_config['bias'] = "none"
      lora_config['task_type'] = TaskType.CAUSAL_LM
  ...
  self.__cfg = {
      'model_name_or_path': model_name_or_path,
      'max_length': max_length,
      'model_kwargs': model_kwargs,
      'pooling_strategy': pooling_strategy,
      'lora_config_kwargs': lora_config,
      'apply_lora': apply_lora,
  }
  self.__cfg.update(kwargs)
  \<close>
  A nested dictionary is an association list, updated in place. The entry
  \<open>target_modules\<close>, which the 4-bit training path adds from the names of the backbone's
  modules, is not modelled.
\<close>

fun alist_set :: "string \<Rightarrow> cfg_value \<Rightarrow> (string \<times> cfg_value) list \<Rightarrow> (string \<times> cfg_value) list"
  where
  "alist_set k v [] = [(k, v)]"
| "alist_set k v ((k', v') # d) = (if k' = k then (k, v) # d else (k', v') # alist_set k v d)"

definition lora_config ::
  "bool \<Rightarrow> (string \<times> cfg_value) list option \<Rightarrow> cfg_value" where
  "lora_config apply_lora lora_config_kwargs =
     (if apply_lora then
        CDict (alist_set ''task_type'' (CStr ''CAUSAL_LM'')
                (alist_set ''bias'' (CStr ''none'')
                  (fold (\<lambda>(k, v) d. alist_set k v d)
                     (case lora_config_kwargs of None \<Rightarrow> [] | Some kw \<Rightarrow> kw)
                     [(''task_type'', CStr ''FEATURE_EXTRACTION''), (''r'', CInt 32),
                      (''lora_alpha'', CInt 32), (''lora_dropout'', CReal (1 / 10))])))
      else CNone)"

definition init_cfg ::
  "string \<Rightarrow> int \<Rightarrow> (string \<times> cfg_value) list option \<Rightarrow>
   (string \<times> cfg_value) list option \<Rightarrow> string option \<Rightarrow> bool \<Rightarrow>
   (string \<times> cfg_value) list \<Rightarrow> config" where
  "init_cfg model_name_or_path max_length model_kwargs lora_config_kwargs strategy
      apply_lora kwargs =
     dict_update
       (Map.empty
          (''model_name_or_path'' \<mapsto> CStr model_name_or_path,
           ''max_length'' \<mapsto> CInt max_length,
           ''model_kwargs'' \<mapsto> CDict (case model_kwargs of None \<Rightarrow> [] | Some kw \<Rightarrow> kw),
           ''pooling_strategy'' \<mapsto> (case strategy of None \<Rightarrow> CNone | Some s \<Rightarrow> CStr s),
           ''lora_config_kwargs'' \<mapsto> lora_config apply_lora lora_config_kwargs,
           ''apply_lora'' \<mapsto> CBool apply_lora))
       kwargs"

text \<open>
  The state of an instance, as far as its methods change it: the configuration, the
  calls made on the backbone (an external object), and the configuration files written
  (path and content).
\<close>

record AnglE =
  cfg :: config
  backbone :: "string list"
  files :: "(string \<times> config) list"

definition AnglE_init ::
  "string \<Rightarrow> int \<Rightarrow> (string \<times> cfg_value) list option \<Rightarrow>
   (string \<times> cfg_value) list option \<Rightarrow> string option \<Rightarrow> bool \<Rightarrow>
   (string \<times> cfg_value) list \<Rightarrow> AnglE" where
  "AnglE_init model_name_or_path max_length model_kwargs lora_config_kwargs strategy
      apply_lora kwargs =
     \<lparr>cfg = init_cfg model_name_or_path max_length model_kwargs lora_config_kwargs strategy
              apply_lora kwargs,
      backbone = [],
      files = []\<rparr>"

text \<open>\<open>os.path.join(dirpath, name)\<close> for a relative \<open>name\<close>.\<close>

definition path_join :: "string \<Rightarrow> string \<Rightarrow> string" where
  "path_join d name =
     (if d = [] then name else if last d = CHR ''/'' then d @ name else d @ ''/'' @ name)"

text \<open>
  The methods of an instance. \<open>Fit output_dir compute_similar_matrix\<close>:
  \<^verbatim>\<open>
  if output_dir is not None:
      os.makedirs(output_dir, exist_ok=True)
  # save config
  self.__cfg['compute_similar_matrix'] = compute_similar_matrix
  self.save_config(os.path.join(output_dir, AnglE.cfg_file_name))
  ...
  trainer.train()
  self.backbone.save_pretrained(output_dir)
  \<close>
  With \<open>output_dir = None\<close>, \<open>os.path.join\<close> raises \<open>TypeError\<close>, after the assignment.
  \<open>save_config\<close> writes \<open>self.__cfg\<close>; \<open>cuda\<close>, \<open>evaluate\<close> and \<open>encode\<close> call the backbone
  and do not name \<open>self.__cfg\<close>. A method returns the exception it raised, if any, and the
  state it leaves. Failures of the external calls (training, file system) are not
  modelled.
\<close>

datatype operation =
    Cuda
  | SaveConfig string
  | Fit "string option" bool
  | Evaluate
  | Encode

fun exec :: "operation \<Rightarrow> AnglE \<Rightarrow> error option \<times> AnglE" where
  "exec Cuda s = (None, s\<lparr>backbone := backbone s @ [''cuda'']\<rparr>)"
| "exec (SaveConfig fpath) s = (None, s\<lparr>files := files s @ [(fpath, cfg s)]\<rparr>)"
| "exec (Fit output_dir compute_similar_matrix) s =
     (let s1 = s\<lparr>cfg := (cfg s)(''compute_similar_matrix'' \<mapsto> CBool compute_similar_matrix)\<rparr>
      in case output_dir of
           None \<Rightarrow> (Some TypeError, s1)
         | Some d \<Rightarrow>
             (None, s1\<lparr>files := files s1 @ [(path_join d ''angle.config'', cfg s1)],
                       backbone := backbone s1 @ [''train'', ''save_pretrained'']\<rparr>))"
| "exec Evaluate s = (None, s\<lparr>backbone := backbone s @ [''eval'']\<rparr>)"
| "exec Encode s = (None, s\<lparr>backbone := backbone s @ [''eval'']\<rparr>)"

text \<open>
  A sequence of method calls on one instance; the caller may catch an exception and go
  on, so the state is threaded through every call.
\<close>

fun run :: "operation list \<Rightarrow> AnglE \<Rightarrow> AnglE" where
  "run [] s = s"
| "run (op # ops) s = run ops (snd (exec op s))"

fun is_fit :: "operation \<Rightarrow> bool" where
  "is_fit (Fit output_dir compute_similar_matrix) = True"
| "is_fit op = False"

section \<open>Properties of the composite loss\<close>

lemma add_term_skipped: "w \<le> 0 \<Longrightarrow> add_term w t loss = Inr loss"
  by (simp add: add_term_def)

lemma add_term_taken: "0 < w \<Longrightarrow> add_term w (Inr v) loss = Inr (loss + w * v)"
  by (simp add: add_term_def)

lemma add_term_weighted:
  "0 \<le> w \<Longrightarrow> (0 < w \<Longrightarrow> t = Inr v) \<Longrightarrow> add_term w t loss = Inr (loss + w * v)"
  by (cases "0 < w") (simp_all add: add_term_def)

text \<open>
  Claim C3, as amended. For weights that are not negative, \<open>AngleLoss.__call__\<close> returns
  \<open>w1 * cosine_loss + w2 * in_batch_negative_loss + w3 * angle_loss\<close>, and a term whose
  weight is 0 is not evaluated: nothing is asked of it, so it may even raise. With
  \<open>w1 = 1\<close>, \<open>w2 = 0\<close> and \<open>w3 = 0\<close> the call is \<open>cosine_loss y_true y_pred cosine_tau\<close>
  itself, also when that raises.
\<close>

theorem AngleLoss_call_weighted_sum:
  fixes self :: AngleLoss
  shows
    "(0 \<le> w1 self \<and> 0 \<le> w2 self \<and> 0 \<le> w3 self \<and>
      (0 < w1 self \<longrightarrow> cosine_loss y_true y_pred (cosine_tau self) = Inr c) \<and>
      (0 < w2 self \<longrightarrow>
         in_batch_negative_loss y_true y_pred (ibn_tau self) similar_matrix = Inr i) \<and>
      (0 < w3 self \<longrightarrow> angle_loss y_true y_pred (angle_tau self) = Inr a)
      \<longrightarrow> AngleLoss_call cosine_loss in_batch_negative_loss angle_loss
            self y_true y_pred similar_matrix
          = Inr (w1 self * c + w2 self * i + w3 self * a))
     \<and>
     (w1 self = 1 \<and> w2 self = 0 \<and> w3 self = 0
      \<longrightarrow> AngleLoss_call cosine_loss in_batch_negative_loss angle_loss
            self y_true y_pred similar_matrix
          = cosine_loss y_true y_pred (cosine_tau self))"
proof (intro conjI impI)
  assume h: "0 \<le> w1 self \<and> 0 \<le> w2 self \<and> 0 \<le> w3 self \<and>
      (0 < w1 self \<longrightarrow> cosine_loss y_true y_pred (cosine_tau self) = Inr c) \<and>
      (0 < w2 self \<longrightarrow>
         in_batch_negative_loss y_true y_pred (ibn_tau self) similar_matrix = Inr i) \<and>
      (0 < w3 self \<longrightarrow> angle_loss y_true y_pred (angle_tau self) = Inr a)"
  have s1: "add_term (w1 self) (cosine_loss y_true y_pred (cosine_tau self)) 0
              = Inr (w1 self * c)"
    using h add_term_weighted [of "w1 self" _ c 0] by simp
  have s2: "add_term (w2 self)
              (in_batch_negative_loss y_true y_pred (ibn_tau self) similar_matrix)
              (w1 self * c) = Inr (w1 self * c + w2 self * i)"
    using h add_term_weighted [of "w2 self" _ i] by simp
  have s3: "add_term (w3 self) (angle_loss y_true y_pred (angle_tau self))
              (w1 self * c + w2 self * i)
              = Inr (w1 self * c + w2 self * i + w3 self * a)"
    using h add_term_weighted [of "w3 self" _ a] by simp
  show "AngleLoss_call cosine_loss in_batch_negative_loss angle_loss
            self y_true y_pred similar_matrix
          = Inr (w1 self * c + w2 self * i + w3 self * a)"
    by (simp add: AngleLoss_call_def s1 s2 s3)
next
  assume "w1 self = 1 \<and> w2 self = 0 \<and> w3 self = 0"
  then show "AngleLoss_call cosine_loss in_batch_negative_loss angle_loss
            self y_true y_pred similar_matrix
          = cosine_loss y_true y_pred (cosine_tau self)"
    by (simp add: AngleLoss_call_def add_term_def split: sum.splits)
qed

text \<open>
  The theorem at concrete weights: \<open>(1, 0, 2)\<close> with an in-batch term that would raise,
  and \<open>(1, 0, 0)\<close>.
\<close>

theorem AngleLoss_call_weighted_sum_witness:
  "AngleLoss_call (\<lambda>(l::unit) (p::unit) tau. Inr 3)
       (\<lambda>l p tau (s::unit option). Inl ValueError) (\<lambda>l p tau. Inr 5)
       \<lparr>w1 = 1, w2 = 0, w3 = 2, cosine_tau = 20, ibn_tau = 20, angle_tau = 1\<rparr> () () None
     = Inr 13
   \<and> AngleLoss_call (\<lambda>(l::unit) (p::unit) tau. Inr 3)
       (\<lambda>l p tau (s::unit option). Inl ValueError) (\<lambda>l p tau. Inl RuntimeError)
       \<lparr>w1 = 1, w2 = 0, w3 = 0, cosine_tau = 20, ibn_tau = 20, angle_tau = 1\<rparr> () () None
     = Inr 3"
  using AngleLoss_call_weighted_sum
      [where self = "\<lparr>w1 = 1, w2 = 0, w3 = 2, cosine_tau = 20, ibn_tau = 20, angle_tau = 1\<rparr>"
         and cosine_loss = "\<lambda>(l::unit) (p::unit) tau. Inr 3"
         and in_batch_negative_loss = "\<lambda>l p tau (s::unit option). Inl ValueError"
         and angle_loss = "\<lambda>l p tau. Inr 5"
         and c = 3 and i = 0 and a = 5 and y_true = "()" and y_pred = "()"
         and similar_matrix = None]
    AngleLoss_call_weighted_sum
      [where self = "\<lparr>w1 = 1, w2 = 0, w3 = 0, cosine_tau = 20, ibn_tau = 20, angle_tau = 1\<rparr>"
         and cosine_loss = "\<lambda>(l::unit) (p::unit) tau. Inr 3"
         and in_batch_negative_loss = "\<lambda>l p tau (s::unit option). Inl ValueError"
         and angle_loss = "\<lambda>l p tau. Inl RuntimeError"
         and y_true = "()" and y_pred = "()" and similar_matrix = None]
  by simp

text \<open>
  Claim C3 as stated, for every weight, fails: a negative weight does not scale its term,
  the term is skipped. With \<open>w1 = -1\<close> and a cosine term of 1 the call returns 0, not -1.
\<close>

theorem AngleLoss_call_negative_weight_counterexample:
  "AngleLoss_call (\<lambda>(l::unit) (p::unit) tau. Inr 1)
       (\<lambda>l p tau (s::unit option). Inr 1) (\<lambda>l p tau. Inr 1)
       \<lparr>w1 = - 1, w2 = 0, w3 = 0, cosine_tau = 20, ibn_tau = 20, angle_tau = 1\<rparr> () () None
     = Inr 0
   \<and> Inr 0 \<noteq> (Inr (- 1 * 1 + 0 * 1 + 0 * 1) :: error + real)"
  by (simp add: AngleLoss_call_def add_term_def)

text \<open>
  Claim C10. The guard of each term is \<open>w > 0\<close>: when all three weights are at most 0, no
  term is evaluated (the three computations are arbitrary here, raising ones included)
  and the call returns the scalar 0.
\<close>

theorem AngleLoss_call_nonpositive_weights:
  fixes self :: AngleLoss
  assumes "w1 self \<le> 0" and "w2 self \<le> 0" and "w3 self \<le> 0"
  shows "AngleLoss_call cosine_loss in_batch_negative_loss angle_loss
           self y_true y_pred similar_matrix = Inr 0"
  using assms by (simp add: AngleLoss_call_def add_term_skipped)

theorem AngleLoss_call_nonpositive_weights_witness:
  "AngleLoss_call (\<lambda>(l::unit) (p::unit) tau. Inr 7)
       (\<lambda>l p tau (s::unit option). Inl ValueError) (\<lambda>l p tau. Inl RuntimeError)
       \<lparr>w1 = - 1, w2 = 0, w3 = - (1 / 2), cosine_tau = 20, ibn_tau = 20, angle_tau = 1\<rparr>
       () () None
     = Inr 0"
  using AngleLoss_call_nonpositive_weights
      [where self = "\<lparr>w1 = - 1, w2 = 0, w3 = - (1 / 2), cosine_tau = 20, ibn_tau = 20,
                       angle_tau = 1\<rparr>"]
  by simp

section \<open>Properties of the target matrix\<close>

lemma wrap32_id: "- (2 ^ 31) \<le> x \<Longrightarrow> x < 2 ^ 31 \<Longrightarrow> wrap32 x = x"
  by (simp add: wrap32_def)

lemma partner_code32:
  assumes "i < 2 ^ 31 - 1"
  shows "wrap32 (wrap32 (wrap32 (int i) + 1) - wrap32 (wrap32 (int i) mod 2 * 2))
           = int (partner i)"
proof -
  have a: "wrap32 (int i) = int i" using assms by (intro wrap32_id) simp_all
  have b: "wrap32 (int i + 1) = int i + 1" using assms by (intro wrap32_id) simp_all
  have m: "0 \<le> int i mod 2" "int i mod 2 < 2" by simp_all
  have c: "wrap32 (int i mod 2 * 2) = int i mod 2 * 2"
  proof (rule wrap32_id)
    show "- (2 ^ 31) \<le> int i mod 2 * 2" using m by simp
    show "int i mod 2 * 2 < 2 ^ 31" using m by simp
  qed
  have d: "int i + 1 - int i mod 2 * 2 = int (partner i)"
    by (cases "even i") (auto simp: partner_def elim!: oddE)
  have e: "wrap32 (int (partner i)) = int (partner i)"
  proof (rule wrap32_id)
    show "- (2 ^ 31) \<le> int (partner i)" by simp
    have "i - 1 \<le> i + 1" by arith
    then have "partner i \<le> i + 1" unfolding partner_def by (cases "even i") simp_all
    then show "int (partner i) < 2 ^ 31" using assms by simp
  qed
  show ?thesis by (simp add: a b c d e)
qed

lemma make_target_matrix_nth:
  assumes "length y_true = n"
  shows "\<exists>T. make_target_matrix n y_true = Inr T \<and> length T = n \<and>
     (\<forall>i<n. length (T ! i) = n \<and>
        (\<forall>j<n. T ! i ! j =
           (if encoded_column j (y_true ! j) = encoded_row i (y_true ! i) then 1 else 0)))"
  using assms
  by (simp add: make_target_matrix_def broadcast_rows_def Let_def
        encoded_column_def encoded_row_def)

lemma encoded_column_flag:
  assumes "j < 2 ^ 31 - 1"
  shows "encoded_column j 1 = int j" and "encoded_column j 0 = - 2"
proof -
  have a: "wrap32 (int j) = int j" using assms by (intro wrap32_id) simp_all
  show "encoded_column j 1 = int j" by (simp add: encoded_column_def a wrap32_id)
  show "encoded_column j 0 = - 2" by (simp add: encoded_column_def wrap32_id)
qed

lemma encoded_row_flag:
  assumes "i < 2 ^ 31 - 1"
  shows "encoded_row i 1 = int (partner i)" and "encoded_row i 0 = - 1"
proof -
  have p: "wrap32 (int (partner i)) = int (partner i)"
  proof (rule wrap32_id)
    show "- (2 ^ 31) \<le> int (partner i)" by simp
    have "i - 1 \<le> i + 1" by arith
    then have "partner i \<le> i + 1" unfolding partner_def by (cases "even i") simp_all
    then show "int (partner i) < 2 ^ 31" using assms by simp
  qed
  show "encoded_row i 1 = int (partner i)"
    unfolding encoded_row_def partner_code32 [OF assms] by (simp add: p wrap32_id)
  show "encoded_row i 0 = - 1"
    unfolding encoded_row_def partner_code32 [OF assms] by (simp add: wrap32_id)
qed

lemma binary_flags_entry:
  assumes "i < 2 ^ 31 - 1" and "j < 2 ^ 31 - 1"
    and "a = 0 \<or> a = 1" and "b = 0 \<or> b = 1"
  shows "(encoded_column j b = encoded_row i a) = (j = partner i \<and> a = 1 \<and> b = 1)"
proof -
  note c = encoded_column_flag [OF assms(2)]
  note r = encoded_row_flag [OF assms(1)]
  consider "a = 0" "b = 0" | "a = 0" "b = 1" | "a = 1" "b = 0" | "a = 1" "b = 1"
    using assms(3,4) by blast
  then show ?thesis
  proof cases
    case 1 then show ?thesis by (simp add: c r)
  next
    case 2 then show ?thesis by (simp add: c r)
  next
    case 3 then show ?thesis by (simp add: c r)
  next
    case 4 then show ?thesis by (simp add: c r)
  qed
qed


lemma make_target_matrix_binary_flags:
  assumes n: "n < 2 ^ 31" and len: "length flags = n"
    and bin: "\<forall>k<n. flags ! k = 0 \<or> flags ! k = 1"
  shows "\<exists>T. make_target_matrix n flags = Inr T \<and> length T = n \<and>
     (\<forall>i<n. length (T ! i) = n \<and>
        (\<forall>j<n. T ! i ! j =
           (if j = partner i \<and> flags ! i = 1 \<and> flags ! j = 1 then 1 else 0)))"
proof -
  obtain T where T: "make_target_matrix n flags = Inr T" "length T = n"
    and ent: "\<forall>i<n. length (T ! i) = n \<and>
        (\<forall>j<n. T ! i ! j =
           (if encoded_column j (flags ! j) = encoded_row i (flags ! i) then 1 else 0))"
    using make_target_matrix_nth [OF len] by blast
  have "T ! i ! j = (if j = partner i \<and> flags ! i = 1 \<and> flags ! j = 1 then 1 else 0)"
    if "i < n" "j < n" for i j
  proof -
    have i: "i < 2 ^ 31 - 1" and j: "j < 2 ^ 31 - 1" using that n by simp_all
    have e: "(encoded_column j (flags ! j) = encoded_row i (flags ! i))
               = (j = partner i \<and> flags ! i = 1 \<and> flags ! j = 1)"
      using binary_flags_entry [OF i j] bin that by blast
    show ?thesis using ent that e by simp
  qed
  then show ?thesis using T ent by blast
qed

text \<open>
  Claim C1, as amended. For \<open>n\<close> rows (fewer than \<open>2^31\<close>) with labels 0 and 1, the target
  matrix has \<open>target[i][j] = 1\<close> exactly when \<open>j\<close> is the partner of \<open>i\<close> and both rows
  have the label 1; every other entry is 0. Two rows with the label 0 never match in the
  target (their sentinels are \<open>-1\<close> and \<open>-2\<close>): partner rows that both have the label 0
  are the 1 entries of the separate matrix \<open>neg_mask\<close>, built from \<open>y_true == 0\<close>.
\<close>

theorem in_batch_target_binary_labels:
  assumes "n < 2 ^ 31" and "length ys = n" and "\<forall>k<n. ys ! k = 0 \<or> ys ! k = 1"
  shows "\<exists>T M. in_batch_target n ys = Inr T \<and> in_batch_neg_mask n ys = Inr M \<and>
     length T = n \<and> length M = n \<and>
     (\<forall>i<n. length (T ! i) = n \<and> length (M ! i) = n \<and>
        (\<forall>j<n.
           T ! i ! j = (if j = partner i \<and> ys ! i = 1 \<and> ys ! j = 1 then 1 else 0) \<and>
           M ! i ! j = (if j = partner i \<and> ys ! i = 0 \<and> ys ! j = 0 then 1 else 0)))"
proof -
  let ?flags = "map (\<lambda>y. if y = 0 then 1 else 0) ys :: int list"
  obtain T where T: "make_target_matrix n ys = Inr T" "length T = n"
    and Te: "\<forall>i<n. length (T ! i) = n \<and>
        (\<forall>j<n. T ! i ! j =
           (if j = partner i \<and> ys ! i = 1 \<and> ys ! j = 1 then 1 else 0))"
    using make_target_matrix_binary_flags [OF assms] by blast
  have fl: "length ?flags = n" using assms(2) by simp
  have fb: "\<forall>k<n. ?flags ! k = 0 \<or> ?flags ! k = 1" using assms(2) by simp
  obtain M where M: "make_target_matrix n ?flags = Inr M" "length M = n"
    and Me: "\<forall>i<n. length (M ! i) = n \<and>
        (\<forall>j<n. M ! i ! j =
           (if j = partner i \<and> ?flags ! i = 1 \<and> ?flags ! j = 1 then 1 else 0))"
    using make_target_matrix_binary_flags [OF assms(1) fl fb] by blast
  have "M ! i ! j = (if j = partner i \<and> ys ! i = 0 \<and> ys ! j = 0 then 1 else 0)"
    if "i < n" "j < n" for i j
  proof -
    have "M ! i ! j = (if j = partner i \<and> ?flags ! i = 1 \<and> ?flags ! j = 1 then 1 else 0)"
      using Me that by blast
    moreover have "(?flags ! i = 1) = (ys ! i = 0)" "(?flags ! j = 1) = (ys ! j = 0)"
      using that assms(2) by simp_all
    ultimately show ?thesis by simp
  qed
  then show ?thesis
    using T M Te Me by (simp add: in_batch_target_def in_batch_neg_mask_def)
qed

text \<open>The theorem at four rows with the labels \<open>[1, 1, 0, 0]\<close>.\<close>

theorem in_batch_target_binary_labels_witness:
  "\<exists>T M. in_batch_target 4 [1, 1, 0, 0] = Inr T \<and> in_batch_neg_mask 4 [1, 1, 0, 0] = Inr M \<and>
     T ! 0 ! 1 = 1 \<and> T ! 1 ! 0 = 1 \<and> T ! 2 ! 3 = 0 \<and> T ! 0 ! 2 = 0 \<and>
     M ! 2 ! 3 = 1 \<and> M ! 0 ! 1 = 0"
proof -
  have h: "\<forall>k<4. [1, 1, 0, 0 :: int] ! k = 0 \<or> [1, 1, 0, 0 :: int] ! k = 1"
    by (simp add: nth_Cons' )
  obtain T M where a: "in_batch_target 4 [1, 1, 0, 0] = Inr T"
    "in_batch_neg_mask 4 [1, 1, 0, 0] = Inr M"
    and e: "\<forall>i<4. length (T ! i) = 4 \<and> length (M ! i) = 4 \<and>
        (\<forall>j<4.
           T ! i ! j = (if j = partner i \<and> [1, 1, 0, 0 :: int] ! i = 1 \<and> [1, 1, 0, 0 :: int] ! j = 1 then 1 else 0) \<and>
           M ! i ! j = (if j = partner i \<and> [1, 1, 0, 0 :: int] ! i = 0 \<and> [1, 1, 0, 0 :: int] ! j = 0 then 1 else 0))"
    using in_batch_target_binary_labels [of 4 "[1, 1, 0, 0]", OF _ _ h] by auto
  have "T ! 0 ! 1 = 1" "T ! 1 ! 0 = 1" "T ! 2 ! 3 = 0" "T ! 0 ! 2 = 0" "M ! 2 ! 3 = 1" "M ! 0 ! 1 = 0"
    using e by (simp_all add: partner_def)
  then show ?thesis using a by blast
qed

text \<open>
  Claim C1 as stated fails: for two rows that both have the label 0 the claim gives
  \<open>target[0][1] = 1\<close> (partners, equal flags), and the code computes a zero matrix.
\<close>

theorem in_batch_target_both_negative_counterexample:
  "in_batch_target 2 [0, 0] = Inr [[0, 0], [0, 0]] \<and> claimed_target [0, 0] 0 1 = 1"
  by (simp add: in_batch_target_def make_target_matrix_def broadcast_rows_def wrap32_def
        claimed_target_def partner_def upt_rec)

section \<open>Properties of the collator\<close>

lemma square_replicate: "square n (replicate n (replicate n x))"
  by (simp add: square_def)

lemma square_nth: "square n m \<Longrightarrow> a < n \<Longrightarrow> length (m ! a) = n"
  by (simp add: square_def)

lemma set_entry_square:
  assumes "square n m" "i < n" "j < n"
  shows "set_entry m i j = Inr (m[i := (m ! i)[j := 1]])"
    and "square n (m[i := (m ! i)[j := 1]])"
    and "a < n \<Longrightarrow> b < n \<Longrightarrow>
           (m[i := (m ! i)[j := 1]]) ! a ! b = (if a = i \<and> b = j then 1 else m ! a ! b)"
proof -
  have l: "length m = n" "length (m ! i) = n" using assms by (simp_all add: square_def)
  show "set_entry m i j = Inr (m[i := (m ! i)[j := 1]])"
    using assms l by (simp add: set_entry_def)
  show "square n (m[i := (m ! i)[j := 1]])"
    using assms l unfolding square_def by (auto dest!: set_update_subset_insert [THEN subsetD])
  show "(m[i := (m ! i)[j := 1]]) ! a ! b = (if a = i \<and> b = j then 1 else m ! a ! b)"
    if "a < n" "b < n"
    using that assms l by (cases "a = i") (simp_all add: nth_list_update)
qed

lemma mark_row_square:
  assumes "square n m" "i < n" "\<forall>j \<in> set js. j < n"
  shows "\<exists>m'. mark_row i js m = Inr m' \<and> square n m' \<and>
     (\<forall>a<n. \<forall>b<n. m' ! a ! b = (if a = i \<and> b \<in> set js \<and> b \<noteq> i then 1 else m ! a ! b))"
  using assms
proof (induction js arbitrary: m)
  case Nil
  then show ?case by simp
next
  case (Cons j js)
  show ?case
  proof (cases "i = j")
    case True
    obtain m' where m': "mark_row i js m = Inr m'" "square n m'"
      "\<forall>a<n. \<forall>b<n. m' ! a ! b = (if a = i \<and> b \<in> set js \<and> b \<noteq> i then 1 else m ! a ! b)"
      using Cons.IH [of m] Cons.prems by auto
    show ?thesis using m' True by auto
  next
    case False
    let ?m1 = "m[i := (m ! i)[j := 1]]"
    have j: "j < n" using Cons.prems by simp
    note se = set_entry_square [OF Cons.prems(1) Cons.prems(2) j]
    obtain m' where m': "mark_row i js ?m1 = Inr m'" "square n m'"
      "\<forall>a<n. \<forall>b<n. m' ! a ! b = (if a = i \<and> b \<in> set js \<and> b \<noteq> i then 1 else ?m1 ! a ! b)"
      using Cons.IH [of ?m1] se(2) Cons.prems by auto
    have "mark_row i (j # js) m = Inr m'" using False se(1) m'(1) by simp
    moreover have "m' ! a ! b = (if a = i \<and> b \<in> set (j # js) \<and> b \<noteq> i then 1 else m ! a ! b)"
      if "a < n" "b < n" for a b
      using m'(3) se(3) [OF that] that False by auto
    ultimately show ?thesis using m'(2) by blast
  qed
qed

lemma mark_ids_square:
  assumes "square n m" "\<forall>i \<in> set rest. i < n" "\<forall>j \<in> set ids. j < n"
  shows "\<exists>m'. mark_ids rest ids m = Inr m' \<and> square n m' \<and>
     (\<forall>a<n. \<forall>b<n. m' ! a ! b =
        (if a \<in> set rest \<and> b \<in> set ids \<and> a \<noteq> b then 1 else m ! a ! b))"
  using assms
proof (induction rest arbitrary: m)
  case Nil
  then show ?case by simp
next
  case (Cons i rest)
  have i: "i < n" using Cons.prems by simp
  obtain m1 where m1: "mark_row i ids m = Inr m1" "square n m1"
    "\<forall>a<n. \<forall>b<n. m1 ! a ! b = (if a = i \<and> b \<in> set ids \<and> b \<noteq> i then 1 else m ! a ! b)"
    using mark_row_square [OF Cons.prems(1) i Cons.prems(3)] by blast
  obtain m' where m': "mark_ids rest ids m1 = Inr m'" "square n m'"
    "\<forall>a<n. \<forall>b<n. m' ! a ! b =
        (if a \<in> set rest \<and> b \<in> set ids \<and> a \<noteq> b then 1 else m1 ! a ! b)"
    using Cons.IH [OF m1(2)] Cons.prems by auto
  have "mark_ids (i # rest) ids m = Inr m'" using m1(1) m'(1) by simp
  moreover have "m' ! a ! b =
        (if a \<in> set (i # rest) \<and> b \<in> set ids \<and> a \<noteq> b then 1 else m ! a ! b)"
    if "a < n" "b < n" for a b
    using m'(3) m1(3) that by auto
  ultimately show ?case using m'(2) by blast
qed

lemma mark_items_square:
  assumes "square n m" "\<forall>(k, ids) \<in> set d. \<forall>p \<in> set ids. p < n"
  shows "\<exists>m'. mark_items d m = Inr m' \<and> square n m' \<and>
     (\<forall>a<n. \<forall>b<n. m' ! a ! b =
        (if \<exists>(k, ids) \<in> set d. a \<in> set ids \<and> b \<in> set ids \<and> a \<noteq> b then 1 else m ! a ! b))"
  using assms
proof (induction d arbitrary: m)
  case Nil
  then show ?case by simp
next
  case (Cons e d)
  obtain k ids where e: "e = (k, ids)" by (cases e)
  have ids: "\<forall>p \<in> set ids. p < n" using Cons.prems e by auto
  have rest: "\<forall>(k, ids) \<in> set d. \<forall>p \<in> set ids. p < n" using Cons.prems by auto
  obtain m1 where m1: "mark_ids ids ids m = Inr m1" "square n m1"
    "\<forall>a<n. \<forall>b<n. m1 ! a ! b =
        (if a \<in> set ids \<and> b \<in> set ids \<and> a \<noteq> b then 1 else m ! a ! b)"
    using mark_ids_square [OF Cons.prems(1) ids ids] by blast
  obtain m' where m': "mark_items d m1 = Inr m'" "square n m'"
    "\<forall>a<n. \<forall>b<n. m' ! a ! b =
        (if \<exists>(k, ids) \<in> set d. a \<in> set ids \<and> b \<in> set ids \<and> a \<noteq> b then 1 else m1 ! a ! b)"
    using Cons.IH [OF m1(2) rest] by blast
  have run: "mark_items (e # d) m = Inr m'"
  proof (cases "ids = []")
    case True
    then have "m1 = m" using m1(1) by simp
    then show ?thesis using True e m'(1) by simp
  next
    case False
    then show ?thesis using e m1(1) m'(1) by simp
  qed
  moreover have "m' ! a ! b =
        (if \<exists>(k, ids) \<in> set (e # d). a \<in> set ids \<and> b \<in> set ids \<and> a \<noteq> b then 1 else m ! a ! b)"
    if "a < n" "b < n" for a b
    using m'(3) m1(3) that e by auto
  ultimately show ?case using m'(2) by blast
qed

lemma map_of_dict_append:
  "map_of (dict_append k v d) =
     (map_of d)(k \<mapsto> (case map_of d k of None \<Rightarrow> [v] | Some vs \<Rightarrow> vs @ [v]))"
  by (induction d) (auto simp: fun_eq_iff)

lemma fst_dict_append: "fst ` set (dict_append k v d) = insert k (fst ` set d)"
proof (induction d)
  case Nil
  show ?case by simp
next
  case (Cons e d)
  obtain k' vs where e: "e = (k', vs)" by (cases e)
  show ?case
  proof (cases "k' = k")
    case True
    then show ?thesis using e by simp
  next
    case False
    then show ?thesis using e Cons.IH by (simp add: insert_commute)
  qed
qed

lemma distinct_dict_append:
  "distinct (map fst d) \<Longrightarrow> distinct (map fst (dict_append k v d))"
proof (induction d)
  case Nil
  then show ?case by simp
next
  case (Cons e d)
  obtain k' vs where e: "e = (k', vs)" by (cases e)
  show ?case
  proof (cases "k' = k")
    case True
    then show ?thesis using Cons.prems e by simp
  next
    case False
    have "k' \<notin> fst ` set (dict_append k v d)"
      using Cons.prems e False by (simp add: fst_dict_append)
    then show ?thesis using Cons e False by simp
  qed
qed

lemma positions_snoc:
  "positions k (rs @ [k0]) = positions k rs \<union> (if k = k0 then {length rs} else {})"
  by (auto simp: positions_def nth_append less_Suc_eq)

lemma text_set_ok_Nil: "text_set_ok [] []"
  by (simp add: text_set_ok_def positions_def)

lemma text_set_ok_append:
  assumes "text_set_ok d rs"
  shows "text_set_ok (dict_append k0 (length rs) d) (rs @ [k0])"
proof -
  have d: "distinct (map fst d)"
    and p: "\<And>k. set (case map_of d k of None \<Rightarrow> [] | Some ids \<Rightarrow> ids) = positions k rs"
    using assms unfolding text_set_ok_def by (rule conjunct1, rule conjunct2 [THEN spec])
  have "set (case map_of (dict_append k0 (length rs) d) k of None \<Rightarrow> [] | Some ids \<Rightarrow> ids)
          = positions k (rs @ [k0])" for k
    using p [of k] by (auto simp: map_of_dict_append positions_snoc split: option.splits)
  then show ?thesis using distinct_dict_append [OF d] by (simp add: text_set_ok_def)
qed

lemma text_set_ok_entries:
  assumes "text_set_ok d rs"
  shows "(\<exists>(k, ids) \<in> set d. a \<in> set ids \<and> b \<in> set ids)
           = (a < length rs \<and> b < length rs \<and> rs ! a = rs ! b)"
proof -
  have d: "distinct (map fst d)"
    and p: "\<And>k. set (case map_of d k of None \<Rightarrow> [] | Some ids \<Rightarrow> ids) = positions k rs"
    using assms unfolding text_set_ok_def by (rule conjunct1, rule conjunct2 [THEN spec])
  show ?thesis
  proof
    assume "\<exists>(k, ids) \<in> set d. a \<in> set ids \<and> b \<in> set ids"
    then obtain k ids where e: "(k, ids) \<in> set d" "a \<in> set ids" "b \<in> set ids" by auto
    then have "map_of d k = Some ids" using d by simp
    then have "set ids = positions k rs" using p [of k] by simp
    then show "a < length rs \<and> b < length rs \<and> rs ! a = rs ! b"
      using e by (simp add: positions_def)
  next
    assume h: "a < length rs \<and> b < length rs \<and> rs ! a = rs ! b"
    then have ab: "a \<in> positions (rs ! a) rs" "b \<in> positions (rs ! a) rs"
      by (simp_all add: positions_def)
    then obtain ids where i: "map_of d (rs ! a) = Some ids"
      using p [of "rs ! a"] by (cases "map_of d (rs ! a)") auto
    then have "set ids = positions (rs ! a) rs" using p [of "rs ! a"] by simp
    moreover have "(rs ! a, ids) \<in> set d" using i by (rule map_of_SomeD)
    ultimately show "\<exists>(k, ids) \<in> set d. a \<in> set ids \<and> b \<in> set ids" using ab by blast
  qed
qed

lemma text_set_ok_bound:
  assumes "text_set_ok d rs"
  shows "\<forall>(k, ids) \<in> set d. \<forall>p \<in> set ids. p < length rs"
proof -
  have d: "distinct (map fst d)"
    and p: "\<And>k. set (case map_of d k of None \<Rightarrow> [] | Some ids \<Rightarrow> ids) = positions k rs"
    using assms unfolding text_set_ok_def by (rule conjunct1, rule conjunct2 [THEN spec])
  have "q < length rs" if "(k, ids) \<in> set d" "q \<in> set ids" for k ids q
  proof -
    have "map_of d k = Some ids" using that d by simp
    then have "set ids = positions k rs" using p [of k] by simp
    then show ?thesis using that by (simp add: positions_def)
  qed
  then show ?thesis by blast
qed


lemma split_feature_Inr:
  assumes "split_feature f = Inr (r1, r2)"
  shows "\<exists>k. list_index 1 (seperate_ids f) = Some k \<and>
     length (seperate_ids f) = length (input_ids f) \<and>
     length (input_ids f) = length (attention_mask f) \<and>
     r1 = \<lparr>input_ids = take k (input_ids f), attention_mask = take k (attention_mask f),
           token_type_ids = map_option (take k) (token_type_ids f), labels = labels f\<rparr> \<and>
     r2 = \<lparr>input_ids = drop k (input_ids f), attention_mask = drop k (attention_mask f),
           token_type_ids = map_option (drop k) (token_type_ids f), labels = labels f\<rparr>"
  using assms by (auto simp: split_feature_def split: if_splits option.splits)

lemma rows_of_Inr: "split_feature f = Inr (r1, r2) \<Longrightarrow> rows_of f = [r1, r2]"
  by (simp add: rows_of_def)

lemma collate_loop_rows:
  assumes "collate_loop fs i st = Inr st'"
    and "length (new_features st) = 2 * (i - 1)" and "1 \<le> i"
    and "text_set_ok (batch_text_set st) (map input_ids (new_features st))"
  shows "new_features st' = new_features st @ concat (map rows_of fs)
     \<and> (\<forall>f \<in> set fs. \<exists>r1 r2. split_feature f = Inr (r1, r2))
     \<and> text_set_ok (batch_text_set st') (map input_ids (new_features st'))
     \<and> has_token_type_ids st' =
         (if fs = [] then has_token_type_ids st else token_type_ids (last fs) \<noteq> None)"
  using assms
proof (induction fs arbitrary: i st)
  case Nil
  then show ?case by simp
next
  case (Cons f fs)
  obtain r1 r2 where sp: "split_feature f = Inr (r1, r2)"
    using Cons.prems(1) by (auto split: sum.splits)
  let ?st1 = "\<lparr>new_features = new_features st @ [r1, r2],
             batch_text_set =
               dict_append (input_ids r2) (2 * (i - 1) + 1)
                 (dict_append (input_ids r1) (2 * (i - 1)) (batch_text_set st)),
             has_token_type_ids = (token_type_ids f \<noteq> None)\<rparr>"
  have run: "collate_loop fs (i + 1) ?st1 = Inr st'" using Cons.prems(1) sp by simp
  have len: "length (new_features ?st1) = 2 * (i + 1 - 1)" using Cons.prems(2,3) by simp
  let ?rs = "map input_ids (new_features st)"
  have l0: "2 * (i - 1) = length ?rs" using Cons.prems(2) by simp
  have ok1: "text_set_ok (dict_append (input_ids r1) (2 * (i - 1)) (batch_text_set st))
               (?rs @ [input_ids r1])"
    unfolding l0 by (rule text_set_ok_append [OF Cons.prems(4)])
  have l1: "2 * (i - 1) + 1 = length (?rs @ [input_ids r1])" using Cons.prems(2) by simp
  have ok2: "text_set_ok
               (dict_append (input_ids r2) (2 * (i - 1) + 1)
                  (dict_append (input_ids r1) (2 * (i - 1)) (batch_text_set st)))
               ((?rs @ [input_ids r1]) @ [input_ids r2])"
    unfolding l1 by (rule text_set_ok_append [OF ok1])
  have ok: "text_set_ok (batch_text_set ?st1) (map input_ids (new_features ?st1))"
    using ok2 by simp
  have ih: "new_features st' = new_features ?st1 @ concat (map rows_of fs)
     \<and> (\<forall>f \<in> set fs. \<exists>r1 r2. split_feature f = Inr (r1, r2))
     \<and> text_set_ok (batch_text_set st') (map input_ids (new_features st'))
     \<and> has_token_type_ids st' =
         (if fs = [] then has_token_type_ids ?st1 else token_type_ids (last fs) \<noteq> None)"
    by (rule Cons.IH [OF run len _ ok]) simp
  have a: "new_features st' = new_features st @ concat (map rows_of (f # fs))"
    using ih sp by (simp add: rows_of_Inr)
  have b: "\<forall>f \<in> set (f # fs). \<exists>r1 r2. split_feature f = Inr (r1, r2)"
    using ih sp by simp
  have c: "text_set_ok (batch_text_set st') (map input_ids (new_features st'))"
    using ih by blast
  have d: "has_token_type_ids st' =
         (if f # fs = [] then has_token_type_ids st else token_type_ids (last (f # fs)) \<noteq> None)"
    using ih by simp
  show ?case using a b c d by blast
qed

lemma collate_loop_total:
  assumes "\<forall>f \<in> set fs. \<exists>p. split_feature f = Inr p"
  shows "\<exists>st'. collate_loop fs i st = Inr st'"
  using assms
proof (induction fs arbitrary: i st)
  case Nil
  then show ?case by simp
next
  case (Cons f fs)
  obtain r1 r2 where sp: "split_feature f = Inr (r1, r2)" using Cons.prems by fastforce
  have "\<forall>f \<in> set fs. \<exists>p. split_feature f = Inr p" using Cons.prems by simp
  from Cons.IH [OF this] show ?case using sp by simp
qed

lemma collate_loop_error:
  assumes "f \<in> set fs" and "split_feature f = Inl e"
  shows "\<exists>e'. collate_loop fs i st = Inl e'"
  using assms
proof (induction fs arbitrary: i st)
  case Nil
  then show ?case by simp
next
  case (Cons g fs)
  show ?case
  proof (cases "split_feature g")
    case (Inl e')
    then show ?thesis by simp
  next
    case (Inr p)
    then have "g \<noteq> f" using Cons.prems(2) by auto
    then have "f \<in> set fs" using Cons.prems(1) by simp
    from Cons.IH [OF this Cons.prems(2)] show ?thesis using Inr by (simp split: prod.splits)
  qed
qed

lemma concat_pairs_nth:
  assumes "\<forall>f \<in> set fs. length (g f) = 2" and "k < length fs"
  shows "length (concat (map g fs)) = 2 * length fs
     \<and> concat (map g fs) ! (2 * k) = g (fs ! k) ! 0
     \<and> concat (map g fs) ! (2 * k + 1) = g (fs ! k) ! 1"
  using assms
proof (induction fs arbitrary: k)
  case Nil
  then show ?case by simp
next
  case (Cons f fs)
  have lf: "length (g f) = 2" using Cons.prems by simp
  have rest: "\<forall>f \<in> set fs. length (g f) = 2" using Cons.prems by simp
  have len: "length (concat (map g fs)) = 2 * length fs"
    using rest by (induction fs) simp_all
  show ?case
  proof (cases k)
    case 0
    then show ?thesis using lf len by (simp add: nth_append)
  next
    case (Suc k')
    then have "k' < length fs" using Cons.prems by simp
    from Cons.IH [OF rest this] show ?thesis using lf len Suc by (simp add: nth_append)
  qed
qed

lemma list_index_Some_iff:
  "list_index x xs = Some k \<longleftrightarrow> k < length xs \<and> xs ! k = x \<and> (\<forall>j<k. xs ! j \<noteq> x)"
proof (induction xs arbitrary: k)
  case Nil
  show ?case by simp
next
  case (Cons y ys)
  show ?case
  proof (cases "y = x")
    case True
    then show ?thesis by (cases k) auto
  next
    case False
    show ?thesis
    proof (cases k)
      case 0
      then show ?thesis using False by auto
    next
      case (Suc k')
      have "(\<forall>j<Suc k'. (y # ys) ! j \<noteq> x) = (\<forall>j<k'. ys ! j \<noteq> x)"
        using False by (auto simp: less_Suc_eq_0_disj)
      then show ?thesis using False Suc Cons.IH [of k'] by auto
    qed
  qed
qed

lemma list_index_None_iff: "list_index x xs = None \<longleftrightarrow> x \<notin> set xs"
  by (induction xs) auto

lemma collate_rows:
  assumes "collate_loop fs 1 \<lparr>new_features = [], batch_text_set = [], has_token_type_ids = h\<rparr>
             = Inr st"
  shows "new_features st = concat (map rows_of fs)"
    and "\<forall>f \<in> set fs. \<exists>r1 r2. split_feature f = Inr (r1, r2)"
    and "text_set_ok (batch_text_set st) (map input_ids (new_features st))"
    and "length (new_features st) = 2 * length fs"
    and "fs \<noteq> [] \<Longrightarrow> has_token_type_ids st = (token_type_ids (last fs) \<noteq> None)"
proof -
  let ?st0 = "\<lparr>new_features = [], batch_text_set = [], has_token_type_ids = h\<rparr>"
  have ok0: "text_set_ok (batch_text_set ?st0) (map input_ids (new_features ?st0))"
    by (simp add: text_set_ok_Nil)
  have all: "new_features st = new_features ?st0 @ concat (map rows_of fs)
     \<and> (\<forall>f \<in> set fs. \<exists>r1 r2. split_feature f = Inr (r1, r2))
     \<and> text_set_ok (batch_text_set st) (map input_ids (new_features st))
     \<and> has_token_type_ids st =
         (if fs = [] then has_token_type_ids ?st0 else token_type_ids (last fs) \<noteq> None)"
    by (rule collate_loop_rows [OF assms _ _ ok0]) simp_all
  show a: "new_features st = concat (map rows_of fs)" using all by simp
  show b: "\<forall>f \<in> set fs. \<exists>r1 r2. split_feature f = Inr (r1, r2)" using all by blast
  show "text_set_ok (batch_text_set st) (map input_ids (new_features st))" using all by blast
  have "\<forall>f \<in> set fs. length (rows_of f) = 2" using b by (auto simp: rows_of_def)
  then have "length (concat (map rows_of fs)) = 2 * length fs"
    by (induction fs) simp_all
  then show "length (new_features st) = 2 * length fs" using a by simp
  show "has_token_type_ids st = (token_type_ids (last fs) \<noteq> None)" if "fs \<noteq> []"
    using all that by simp
qed

lemma collator_Inr:
  assumes "AngleDataCollator_call pad c fs = Inr b"
  shows "\<exists>st sm. fs \<noteq> [] \<and>
     collate_loop fs 1 \<lparr>new_features = [], batch_text_set = [],
        has_token_type_ids = (token_type_ids (hd fs) \<noteq> None)\<rparr> = Inr st \<and>
     (if c then mark_items (batch_text_set st)
                 (replicate (length (new_features st)) (replicate (length (new_features st)) 0))
      else Inr (replicate (length (new_features st)) (replicate (length (new_features st)) 0)))
       = Inr sm \<and>
     batch_similar_matrix b = sm \<and>
     batch_input_ids b = pad (map input_ids (new_features st)) \<and>
     batch_attention_mask b = pad (map attention_mask (new_features st)) \<and>
     batch_labels b = map labels (new_features st)"
  using assms unfolding AngleDataCollator_call_def Let_def
  by (auto split: list.splits sum.splits if_splits option.splits)


lemma similar_matrix_entries:
  assumes "AngleDataCollator_call pad c fs = Inr b"
  shows "batch_input_ids b = pad (map input_ids (concat (map rows_of fs)))"
    and "length (concat (map rows_of fs)) = 2 * length fs"
    and "square (2 * length fs) (batch_similar_matrix b)"
    and "\<forall>i < 2 * length fs. \<forall>j < 2 * length fs.
           batch_similar_matrix b ! i ! j =
             (if c \<and> i \<noteq> j \<and>
                 map input_ids (concat (map rows_of fs)) ! i
                   = map input_ids (concat (map rows_of fs)) ! j
              then 1 else 0)"
proof -
  let ?n = "2 * length fs"
  obtain st sm where ne: "fs \<noteq> []"
    and loop: "collate_loop fs 1 \<lparr>new_features = [], batch_text_set = [],
        has_token_type_ids = (token_type_ids (hd fs) \<noteq> None)\<rparr> = Inr st"
    and mk: "(if c then mark_items (batch_text_set st)
                 (replicate (length (new_features st)) (replicate (length (new_features st)) 0))
      else Inr (replicate (length (new_features st)) (replicate (length (new_features st)) 0)))
       = Inr sm"
    and b: "batch_similar_matrix b = sm"
      "batch_input_ids b = pad (map input_ids (new_features st))"
    using collator_Inr [OF assms] by blast
  note r = collate_rows [OF loop]
  let ?rs = "map input_ids (new_features st)"
  let ?z = "replicate ?n (replicate ?n (0::real))"
  have len: "length (new_features st) = ?n" by (rule r(4))
  have lrs: "length ?rs = ?n" using len by simp
  show "batch_input_ids b = pad (map input_ids (concat (map rows_of fs)))"
    using b(2) r(1) by simp
  show "length (concat (map rows_of fs)) = ?n" using len r(1) by simp
  have sqz: "square ?n ?z" by (rule square_replicate)
  have zent: "?z ! i ! j = 0" if "i < ?n" "j < ?n" for i j using that by simp
  have bound: "\<forall>(k, ids) \<in> set (batch_text_set st). \<forall>p \<in> set ids. p < ?n"
    using text_set_ok_bound [OF r(3)] lrs by simp
  have main: "square ?n sm \<and> (\<forall>i < ?n. \<forall>j < ?n.
      sm ! i ! j = (if c \<and> i \<noteq> j \<and> ?rs ! i = ?rs ! j then 1 else 0))"
  proof (cases c)
    case False
    then have "sm = ?z" using mk len by simp
    then show ?thesis using sqz False by simp
  next
    case True
    then have run: "mark_items (batch_text_set st) ?z = Inr sm" using mk len by simp
    obtain m' where m': "mark_items (batch_text_set st) ?z = Inr m'" "square ?n m'"
      "\<forall>a < ?n. \<forall>b < ?n. m' ! a ! b =
        (if \<exists>(k, ids) \<in> set (batch_text_set st). a \<in> set ids \<and> b \<in> set ids \<and> a \<noteq> b
         then 1 else ?z ! a ! b)"
      using mark_items_square [OF sqz bound] by blast
    have eq: "m' = sm" using run m'(1) by simp
    have "sm ! i ! j = (if c \<and> i \<noteq> j \<and> ?rs ! i = ?rs ! j then 1 else 0)"
      if ij: "i < ?n" "j < ?n" for i j
    proof -
      have e: "(\<exists>(k, ids) \<in> set (batch_text_set st). i \<in> set ids \<and> j \<in> set ids)
                 = (i < length ?rs \<and> j < length ?rs \<and> ?rs ! i = ?rs ! j)"
        by (rule text_set_ok_entries [OF r(3)])
      have e': "(\<exists>(k, ids) \<in> set (batch_text_set st). i \<in> set ids \<and> j \<in> set ids \<and> i \<noteq> j)
                 = (i \<noteq> j \<and> ?rs ! i = ?rs ! j)"
        using e ij lrs by auto
      have "sm ! i ! j =
        (if \<exists>(k, ids) \<in> set (batch_text_set st). i \<in> set ids \<and> j \<in> set ids \<and> i \<noteq> j
         then 1 else ?z ! i ! j)"
        using m'(3) ij eq by blast
      then have "sm ! i ! j = (if i \<noteq> j \<and> ?rs ! i = ?rs ! j then 1 else 0)"
        unfolding e' zent [OF ij] .
      then show ?thesis using True by simp
    qed
    then show ?thesis using m'(2) eq by blast
  qed
  show "square ?n (batch_similar_matrix b)" using main b(1) by simp
  show "\<forall>i < 2 * length fs. \<forall>j < 2 * length fs.
           batch_similar_matrix b ! i ! j =
             (if c \<and> i \<noteq> j \<and>
                 map input_ids (concat (map rows_of fs)) ! i
                   = map input_ids (concat (map rows_of fs)) ! j
              then 1 else 0)"
    using main b(1) r(1) by simp
qed

text \<open>
  Claim C4. For every batch that the collator produces, the similarity mask is a
  \<open>2N\<close> by \<open>2N\<close> matrix of zeros and ones, symmetric, with a zero diagonal; with
  \<open>compute_similar_matrix\<close> enabled its entry \<open>(i, j)\<close> is 1 exactly when \<open>i \<noteq> j\<close> and the
  rows \<open>i\<close> and \<open>j\<close> (the rows handed to the padding) hold the same \<open>input_ids\<close>; with the
  flag disabled no entry is 1.
\<close>

theorem similar_matrix_identical_rows:
  assumes "AngleDataCollator_call pad compute_similar_matrix fs = Inr b"
  shows "batch_input_ids b = pad (map input_ids (concat (map rows_of fs)))
     \<and> length (concat (map rows_of fs)) = 2 * length fs
     \<and> length (batch_similar_matrix b) = 2 * length fs
     \<and> (\<forall>i < 2 * length fs.
          length (batch_similar_matrix b ! i) = 2 * length fs
          \<and> batch_similar_matrix b ! i ! i = 0
          \<and> (\<forall>j < 2 * length fs.
               batch_similar_matrix b ! i ! j = batch_similar_matrix b ! j ! i
               \<and> (batch_similar_matrix b ! i ! j = 0 \<or> batch_similar_matrix b ! i ! j = 1)
               \<and> (batch_similar_matrix b ! i ! j = 1
                    \<longleftrightarrow> compute_similar_matrix \<and> i \<noteq> j \<and>
                        input_ids (concat (map rows_of fs) ! i)
                          = input_ids (concat (map rows_of fs) ! j))))"
proof -
  let ?n = "2 * length fs"
  let ?sm = "batch_similar_matrix b"
  let ?rows = "concat (map rows_of fs)"
  note e = similar_matrix_entries [OF assms]
  have ent: "?sm ! i ! j =
      (if compute_similar_matrix \<and> i \<noteq> j \<and> input_ids (?rows ! i) = input_ids (?rows ! j)
       then 1 else 0)" if "i < ?n" "j < ?n" for i j
    using e(4) e(2) that by simp
  have rowlen: "length (?sm ! i) = ?n" if "i < ?n" for i
    using e(3) that by (rule square_nth)
  have "length ?sm = ?n" using e(3) by (simp add: square_def)
  moreover have "length (?sm ! i) = ?n \<and> ?sm ! i ! i = 0
          \<and> (\<forall>j < ?n. ?sm ! i ! j = ?sm ! j ! i
               \<and> (?sm ! i ! j = 0 \<or> ?sm ! i ! j = 1)
               \<and> (?sm ! i ! j = 1
                    \<longleftrightarrow> compute_similar_matrix \<and> i \<noteq> j \<and>
                        input_ids (?rows ! i) = input_ids (?rows ! j)))" if i: "i < ?n" for i
  proof (intro conjI allI impI)
    show "length (?sm ! i) = ?n" by (rule rowlen [OF i])
    show "?sm ! i ! i = 0" using ent [OF i i] by simp
  next
    fix j assume j: "j < ?n"
    show "?sm ! i ! j = ?sm ! j ! i" using ent [OF i j] ent [OF j i] by auto
    show "?sm ! i ! j = 0 \<or> ?sm ! i ! j = 1" using ent [OF i j] by auto
    show "?sm ! i ! j = 1 \<longleftrightarrow> compute_similar_matrix \<and> i \<noteq> j \<and>
            input_ids (?rows ! i) = input_ids (?rows ! j)"
      using ent [OF i j] by auto
  qed
  ultimately show ?thesis using e(1) e(2) by blast
qed

lemma split_feature_valid:
  assumes "valid_feature f"
  shows "\<exists>r1 r2. split_feature f = Inr (r1, r2)"
proof -
  have "list_index 1 (seperate_ids f) \<noteq> None"
    using assms by (simp add: valid_feature_def list_index_None_iff)
  then show ?thesis
    using assms by (auto simp: split_feature_def valid_feature_def split: option.splits)
qed

lemma rows_of_props:
  assumes "r \<in> set (rows_of f)"
  shows "labels r = labels f" and "(token_type_ids r = None) = (token_type_ids f = None)"
proof -
  obtain r1 r2 where sp: "split_feature f = Inr (r1, r2)"
  proof (cases "split_feature f")
    case (Inl e)
    then show ?thesis using assms by (simp add: rows_of_def)
  next
    case (Inr p)
    then show ?thesis using that by (cases p) simp
  qed
  from split_feature_Inr [OF sp] rows_of_Inr [OF sp] assms
  show "labels r = labels f" and "(token_type_ids r = None) = (token_type_ids f = None)"
    by auto
qed

lemma those_map_Some:
  "\<forall>x \<in> set xs. g x \<noteq> None \<Longrightarrow> \<exists>ys. those (map g xs) = Some ys"
  by (induction xs) auto

lemma collator_total:
  assumes "valid_features fs"
  shows "\<exists>b. AngleDataCollator_call pad c fs = Inr b"
proof -
  obtain f0 rest where fs: "fs = f0 # rest"
    using assms by (cases fs) (simp_all add: valid_features_def)
  have vf: "\<forall>f \<in> set fs. valid_feature f"
    and un: "\<forall>f \<in> set fs. (token_type_ids f = None) = (token_type_ids f0 = None)"
    using assms fs by (simp_all add: valid_features_def list_all_iff)
  let ?st0 = "\<lparr>new_features = [], batch_text_set = [],
                has_token_type_ids = (token_type_ids f0 \<noteq> None)\<rparr>"
  have "\<forall>f \<in> set fs. \<exists>p. split_feature f = Inr p"
    using vf split_feature_valid by blast
  then obtain st where loop: "collate_loop fs 1 ?st0 = Inr st"
    using collate_loop_total by blast
  note r = collate_rows [OF loop]
  let ?n = "length (new_features st)"
  let ?z = "replicate ?n (replicate ?n (0::real))"
  have bound: "\<forall>(k, ids) \<in> set (batch_text_set st). \<forall>p \<in> set ids. p < ?n"
    using text_set_ok_bound [OF r(3)] by simp
  obtain m' where m': "mark_items (batch_text_set st) ?z = Inr m'"
    using mark_items_square [OF square_replicate bound] by blast
  then obtain sm where sm: "(if c then mark_items (batch_text_set st) ?z else Inr ?z) = Inr sm"
    by (cases c) simp_all
  have rowf: "\<exists>f \<in> set fs. r \<in> set (rows_of f)" if "r \<in> set (new_features st)" for r
    using that r(1) by auto
  have lab: "length (labels r) = 1" if rin: "r \<in> set (new_features st)" for r
  proof -
    obtain f where f: "f \<in> set fs" "r \<in> set (rows_of f)" using rowf [OF rin] by blast
    then show ?thesis using rows_of_props(1) [OF f(2)] vf by (simp add: valid_feature_def)
  qed
  have ne: "new_features st \<noteq> []" using r(4) fs by auto
  then have hd_in: "hd (new_features st) \<in> set (new_features st)" by simp
  have labs: "\<not> (\<exists>r \<in> set (new_features st).
                 length (labels r) \<noteq> length (labels (hd (new_features st))))"
    using lab hd_in by simp
  have tt: "\<exists>t. (if has_token_type_ids st
                 then (case those (map token_type_ids (new_features st)) of
                         None \<Rightarrow> Inl KeyError
                       | Some tts \<Rightarrow> Inr (Some (pad tts)))
                 else Inr None) = Inr t"
  proof (cases "has_token_type_ids st")
    case False
    then show ?thesis by simp
  next
    case True
    have "fs \<noteq> []" using fs by simp
    then have "token_type_ids (last fs) \<noteq> None" using r(5) True by simp
    moreover have "last fs \<in> set fs" using fs by simp
    ultimately have f0: "token_type_ids f0 \<noteq> None" using un by auto
    have "token_type_ids r \<noteq> None" if rin: "r \<in> set (new_features st)" for r
    proof -
      obtain f where f: "f \<in> set fs" "r \<in> set (rows_of f)" using rowf [OF rin] by blast
      then show ?thesis using rows_of_props(2) [OF f(2)] un f0 by auto
    qed
    then obtain tts where "those (map token_type_ids (new_features st)) = Some tts"
      using those_map_Some [of "new_features st" token_type_ids] by blast
    then show ?thesis using True by simp
  qed
  then obtain t where t: "(if has_token_type_ids st
                 then (case those (map token_type_ids (new_features st)) of
                         None \<Rightarrow> Inl KeyError
                       | Some tts \<Rightarrow> Inr (Some (pad tts)))
                 else Inr None) = Inr t" by blast
  show ?thesis
    unfolding AngleDataCollator_call_def Let_def fs list.case
    unfolding loop [unfolded fs] sum.case sm t
    using labs by simp
qed

lemma example_batch:
  "AngleDataCollator_call (\<lambda>rows. rows) True [example_pair_same, example_pair_other] =
     Inr \<lparr>batch_input_ids = [[101, 5, 102], [101, 5, 102], [101, 5, 102], [101, 7]],
          batch_attention_mask = [[1, 1, 1], [1, 1, 1], [1, 1, 1], [1, 1]],
          batch_token_type_ids = None, batch_labels = [[1], [1], [0], [0]],
          batch_similar_matrix = [[0, 1, 1, 0], [1, 0, 1, 0], [1, 1, 0, 0], [0, 0, 0, 0]]\<rparr>"
  by code_simp

text \<open>
  The theorem at a batch of two pairs: rows 0, 1 and 2 hold the same tokens, row 3 does not.
\<close>

theorem similar_matrix_identical_rows_witness:
  "AngleDataCollator_call (\<lambda>rows. rows) True [example_pair_same, example_pair_other] =
     Inr \<lparr>batch_input_ids = [[101, 5, 102], [101, 5, 102], [101, 5, 102], [101, 7]],
          batch_attention_mask = [[1, 1, 1], [1, 1, 1], [1, 1, 1], [1, 1]],
          batch_token_type_ids = None, batch_labels = [[1], [1], [0], [0]],
          batch_similar_matrix = [[0, 1, 1, 0], [1, 0, 1, 0], [1, 1, 0, 0], [0, 0, 0, 0]]\<rparr>
   \<and> length (concat (map rows_of [example_pair_same, example_pair_other])) = 4
   \<and> input_ids (concat (map rows_of [example_pair_same, example_pair_other]) ! 0)
       = input_ids (concat (map rows_of [example_pair_same, example_pair_other]) ! 2)
   \<and> input_ids (concat (map rows_of [example_pair_same, example_pair_other]) ! 0)
       \<noteq> input_ids (concat (map rows_of [example_pair_same, example_pair_other]) ! 3)"
proof -
  let ?fs = "[example_pair_same, example_pair_other]"
  let ?rows = "concat (map rows_of ?fs)"
  obtain b where b: "AngleDataCollator_call (\<lambda>rows. rows) True ?fs = Inr b"
    and sm: "batch_similar_matrix b = [[0, 1, 1, 0], [1, 0, 1, 0], [1, 1, 0, 0], [0, 0, 0, 0]]"
    using example_batch by simp
  have n: "2 * length ?fs = 4" by simp
  note t = similar_matrix_identical_rows [OF b, unfolded n]
  from t have len: "length ?rows = 4" by blast
  from t have ent: "\<forall>i<4. \<forall>j<4. (batch_similar_matrix b ! i ! j = 1)
      = (True \<and> i \<noteq> j \<and> input_ids (?rows ! i) = input_ids (?rows ! j))"
    by blast
  have "(batch_similar_matrix b ! 0 ! 2 = 1)
      = (True \<and> (0::nat) \<noteq> 2 \<and> input_ids (?rows ! 0) = input_ids (?rows ! 2))"
    using ent by simp
  then have same: "input_ids (?rows ! 0) = input_ids (?rows ! 2)" using sm by simp
  have "(batch_similar_matrix b ! 0 ! 3 = 1)
      = (True \<and> (0::nat) \<noteq> 3 \<and> input_ids (?rows ! 0) = input_ids (?rows ! 3))"
    using ent by simp
  then have other: "input_ids (?rows ! 0) \<noteq> input_ids (?rows ! 3)" using sm by simp
  show ?thesis using example_batch len same other by blast
qed

lemma rows_of_valid:
  assumes "valid_feature f"
  shows "\<exists>k < length (seperate_ids f).
     seperate_ids f ! k = 1 \<and> (\<forall>j<k. seperate_ids f ! j \<noteq> 1) \<and>
     rows_of f =
       [\<lparr>input_ids = take k (input_ids f), attention_mask = take k (attention_mask f),
          token_type_ids = map_option (take k) (token_type_ids f), labels = labels f\<rparr>,
        \<lparr>input_ids = drop k (input_ids f), attention_mask = drop k (attention_mask f),
          token_type_ids = map_option (drop k) (token_type_ids f), labels = labels f\<rparr>]"
proof -
  obtain r1 r2 where sp: "split_feature f = Inr (r1, r2)"
    using split_feature_valid [OF assms] by blast
  obtain k where k: "list_index 1 (seperate_ids f) = Some k"
    and r: "r1 = \<lparr>input_ids = take k (input_ids f), attention_mask = take k (attention_mask f),
           token_type_ids = map_option (take k) (token_type_ids f), labels = labels f\<rparr>"
       "r2 = \<lparr>input_ids = drop k (input_ids f), attention_mask = drop k (attention_mask f),
           token_type_ids = map_option (drop k) (token_type_ids f), labels = labels f\<rparr>"
    using split_feature_Inr [OF sp] by blast
  have "k < length (seperate_ids f) \<and> seperate_ids f ! k = 1 \<and> (\<forall>j<k. seperate_ids f ! j \<noteq> 1)"
    using k by (simp add: list_index_Some_iff)
  then show ?thesis using rows_of_Inr [OF sp] r by blast
qed

text \<open>
  Claim C5. For every valid batch of \<open>N\<close> features the collator returns a batch, built from
  exactly \<open>2N\<close> rows: row \<open>2i\<close> holds the tokens (and the attention mask) of record \<open>i\<close>
  before the first segment id equal to 1, row \<open>2i + 1\<close> holds the rest, and both rows
  carry the labels of record \<open>i\<close>. The rows are what the collator hands to the padding.
\<close>

theorem collator_rows_interleaved:
  assumes "valid_features fs"
  shows "\<exists>b. AngleDataCollator_call pad compute_similar_matrix fs = Inr b
     \<and> batch_input_ids b = pad (map input_ids (concat (map rows_of fs)))
     \<and> batch_attention_mask b = pad (map attention_mask (concat (map rows_of fs)))
     \<and> batch_labels b = map labels (concat (map rows_of fs))
     \<and> length (concat (map rows_of fs)) = 2 * length fs
     \<and> (\<forall>i < length fs. \<exists>k < length (seperate_ids (fs ! i)).
           seperate_ids (fs ! i) ! k = 1 \<and> (\<forall>j<k. seperate_ids (fs ! i) ! j \<noteq> 1)
         \<and> input_ids (concat (map rows_of fs) ! (2 * i)) = take k (input_ids (fs ! i))
         \<and> attention_mask (concat (map rows_of fs) ! (2 * i)) = take k (attention_mask (fs ! i))
         \<and> input_ids (concat (map rows_of fs) ! (2 * i + 1)) = drop k (input_ids (fs ! i))
         \<and> attention_mask (concat (map rows_of fs) ! (2 * i + 1))
             = drop k (attention_mask (fs ! i))
         \<and> batch_labels b ! (2 * i) = labels (fs ! i)
         \<and> batch_labels b ! (2 * i + 1) = labels (fs ! i))"
proof -
  let ?rows = "concat (map rows_of fs)"
  obtain b where b: "AngleDataCollator_call pad compute_similar_matrix fs = Inr b"
    using collator_total [OF assms] by blast
  obtain st where loop: "collate_loop fs 1 \<lparr>new_features = [], batch_text_set = [],
        has_token_type_ids = (token_type_ids (hd fs) \<noteq> None)\<rparr> = Inr st"
    and fields: "batch_input_ids b = pad (map input_ids (new_features st))"
      "batch_attention_mask b = pad (map attention_mask (new_features st))"
      "batch_labels b = map labels (new_features st)"
    using collator_Inr [OF b] by blast
  note r = collate_rows [OF loop]
  have vf: "\<forall>f \<in> set fs. valid_feature f"
    using assms by (simp add: valid_features_def list_all_iff)
  have two: "\<forall>f \<in> set fs. length (rows_of f) = 2"
    using r(2) by (auto simp: rows_of_def)
  have len: "length ?rows = 2 * length fs" using r(1) r(4) by simp
  have row: "\<exists>k < length (seperate_ids (fs ! i)).
           seperate_ids (fs ! i) ! k = 1 \<and> (\<forall>j<k. seperate_ids (fs ! i) ! j \<noteq> 1)
         \<and> input_ids (?rows ! (2 * i)) = take k (input_ids (fs ! i))
         \<and> attention_mask (?rows ! (2 * i)) = take k (attention_mask (fs ! i))
         \<and> input_ids (?rows ! (2 * i + 1)) = drop k (input_ids (fs ! i))
         \<and> attention_mask (?rows ! (2 * i + 1)) = drop k (attention_mask (fs ! i))
         \<and> batch_labels b ! (2 * i) = labels (fs ! i)
         \<and> batch_labels b ! (2 * i + 1) = labels (fs ! i)" if i: "i < length fs" for i
  proof -
    have v: "valid_feature (fs ! i)" using vf i by simp
    obtain k where k: "k < length (seperate_ids (fs ! i))" "seperate_ids (fs ! i) ! k = 1"
        "\<forall>j<k. seperate_ids (fs ! i) ! j \<noteq> 1"
      and ro: "rows_of (fs ! i) =
       [\<lparr>input_ids = take k (input_ids (fs ! i)),
          attention_mask = take k (attention_mask (fs ! i)),
          token_type_ids = map_option (take k) (token_type_ids (fs ! i)),
          labels = labels (fs ! i)\<rparr>,
        \<lparr>input_ids = drop k (input_ids (fs ! i)),
          attention_mask = drop k (attention_mask (fs ! i)),
          token_type_ids = map_option (drop k) (token_type_ids (fs ! i)),
          labels = labels (fs ! i)\<rparr>]"
      using rows_of_valid [OF v] by blast
    note c = concat_pairs_nth [OF two i]
    have r0: "?rows ! (2 * i) = rows_of (fs ! i) ! 0" using c by blast
    have r1: "?rows ! (2 * i + 1) = rows_of (fs ! i) ! 1" using c by blast
    have i0: "2 * i < length ?rows" and i1: "2 * i + 1 < length ?rows" using len i by simp_all
    have l0: "batch_labels b ! (2 * i) = labels (?rows ! (2 * i))"
      using fields(3) r(1) i0 by simp
    have l1: "batch_labels b ! (2 * i + 1) = labels (?rows ! (2 * i + 1))"
      using fields(3) r(1) i1 by simp
    have "input_ids (?rows ! (2 * i)) = take k (input_ids (fs ! i))"
      "attention_mask (?rows ! (2 * i)) = take k (attention_mask (fs ! i))"
      "input_ids (?rows ! (2 * i + 1)) = drop k (input_ids (fs ! i))"
      "attention_mask (?rows ! (2 * i + 1)) = drop k (attention_mask (fs ! i))"
      "batch_labels b ! (2 * i) = labels (fs ! i)"
      "batch_labels b ! (2 * i + 1) = labels (fs ! i)"
      unfolding l0 l1 r0 r1 ro by simp_all
    then show ?thesis using k by blast
  qed
  have f1: "batch_input_ids b = pad (map input_ids ?rows)" using fields(1) r(1) by simp
  have f2: "batch_attention_mask b = pad (map attention_mask ?rows)" using fields(2) r(1) by simp
  have f3: "batch_labels b = map labels ?rows" using fields(3) r(1) by simp
  show ?thesis using b f1 f2 f3 len row by blast
qed


text \<open>The theorem at a batch of two pairs.\<close>

theorem collator_rows_interleaved_witness:
  "valid_features [example_pair_same, example_pair_other]
   \<and> (\<exists>b. AngleDataCollator_call (\<lambda>rows. rows) True [example_pair_same, example_pair_other]
            = Inr b
        \<and> length (concat (map rows_of [example_pair_same, example_pair_other])) = 4
        \<and> batch_labels b ! 2 = [0] \<and> batch_labels b ! 3 = [0])"
proof -
  let ?fs = "[example_pair_same, example_pair_other]"
  have v: "valid_features ?fs" by code_simp
  obtain b where b: "AngleDataCollator_call (\<lambda>rows. rows) True ?fs = Inr b"
    and len: "length (concat (map rows_of ?fs)) = 2 * length ?fs"
    and rows: "\<forall>i < length ?fs. \<exists>k < length (seperate_ids (?fs ! i)).
           seperate_ids (?fs ! i) ! k = 1 \<and> (\<forall>j<k. seperate_ids (?fs ! i) ! j \<noteq> 1)
         \<and> input_ids (concat (map rows_of ?fs) ! (2 * i)) = take k (input_ids (?fs ! i))
         \<and> attention_mask (concat (map rows_of ?fs) ! (2 * i))
             = take k (attention_mask (?fs ! i))
         \<and> input_ids (concat (map rows_of ?fs) ! (2 * i + 1)) = drop k (input_ids (?fs ! i))
         \<and> attention_mask (concat (map rows_of ?fs) ! (2 * i + 1))
             = drop k (attention_mask (?fs ! i))
         \<and> batch_labels b ! (2 * i) = labels (?fs ! i)
         \<and> batch_labels b ! (2 * i + 1) = labels (?fs ! i)"
    using collator_rows_interleaved [OF v, of "\<lambda>rows. rows" True] by blast
  have "1 < length ?fs" by simp
  then have "batch_labels b ! (2 * 1) = labels (?fs ! 1)
      \<and> batch_labels b ! (2 * 1 + 1) = labels (?fs ! 1)"
    using rows by blast
  then have l: "batch_labels b ! 2 = [0]" "batch_labels b ! 3 = [0]" by simp_all
  have "length (concat (map rows_of ?fs)) = 4" using len by simp
  then show ?thesis using v b l by blast
qed

text \<open>
  Claim C9. A feature whose \<open>seperate_ids\<close> hold no 1 makes the split raise
  (\<open>ValueError\<close> from \<open>seperate_ids.index(1)\<close>, when the length assertions pass), and a batch
  with such a feature makes the collator raise instead of returning a batch. With a 1 in
  \<open>seperate_ids\<close> the split index is the position of the first 1, and whenever the split
  returns, the two rows are the tokens before and from that position.
\<close>

theorem collator_split_precondition:
  "(f \<in> set fs \<and> 1 \<notin> set (seperate_ids f)
      \<longrightarrow> (\<exists>e. AngleDataCollator_call pad compute_similar_matrix fs = Inl e))
   \<and> (1 \<notin> set (seperate_ids f) \<longrightarrow> (\<exists>e. split_feature f = Inl e))
   \<and> (1 \<notin> set (seperate_ids f)
        \<and> length (seperate_ids f) = length (input_ids f)
        \<and> length (input_ids f) = length (attention_mask f)
        \<and> token_type_ids f = None
      \<longrightarrow> split_feature f = Inl ValueError)
   \<and> (1 \<in> set (seperate_ids f)
      \<longrightarrow> (\<exists>k. list_index 1 (seperate_ids f) = Some k
             \<and> k < length (seperate_ids f) \<and> seperate_ids f ! k = 1
             \<and> (\<forall>j<k. seperate_ids f ! j \<noteq> 1)))
   \<and> (split_feature f = Inr (r1, r2)
      \<longrightarrow> (\<exists>k. k < length (seperate_ids f) \<and> seperate_ids f ! k = 1
             \<and> (\<forall>j<k. seperate_ids f ! j \<noteq> 1)
             \<and> input_ids r1 = take k (input_ids f) \<and> input_ids r2 = drop k (input_ids f)))"
proof (intro conjI impI)
  assume h: "1 \<notin> set (seperate_ids f)"
  then have n: "list_index 1 (seperate_ids f) = None" by (simp add: list_index_None_iff)
  show e: "\<exists>e. split_feature f = Inl e"
    using n by (simp add: split_feature_def)
next
  assume h: "f \<in> set fs \<and> 1 \<notin> set (seperate_ids f)"
  then have n: "list_index 1 (seperate_ids f) = None" by (simp add: list_index_None_iff)
  then have "\<exists>e. split_feature f = Inl e" by (simp add: split_feature_def)
  then obtain e where e: "split_feature f = Inl e" by blast
  obtain f0 rest where fs: "fs = f0 # rest" using h by (cases fs) auto
  obtain e' where "collate_loop fs 1 \<lparr>new_features = [], batch_text_set = [],
        has_token_type_ids = (token_type_ids f0 \<noteq> None)\<rparr> = Inl e'"
    using collate_loop_error [OF _ e] h by blast
  then show "\<exists>e. AngleDataCollator_call pad compute_similar_matrix fs = Inl e"
    unfolding AngleDataCollator_call_def fs by simp
next
  assume "1 \<notin> set (seperate_ids f)
        \<and> length (seperate_ids f) = length (input_ids f)
        \<and> length (input_ids f) = length (attention_mask f)
        \<and> token_type_ids f = None"
  then show "split_feature f = Inl ValueError"
    by (simp add: split_feature_def list_index_None_iff [THEN iffD2])
next
  assume "1 \<in> set (seperate_ids f)"
  then obtain k where k: "list_index 1 (seperate_ids f) = Some k"
    using list_index_None_iff [of 1 "seperate_ids f"] by (cases "list_index 1 (seperate_ids f)") auto
  then show "\<exists>k. list_index 1 (seperate_ids f) = Some k
             \<and> k < length (seperate_ids f) \<and> seperate_ids f ! k = 1
             \<and> (\<forall>j<k. seperate_ids f ! j \<noteq> 1)"
    using list_index_Some_iff [of 1 "seperate_ids f" k] by blast
next
  assume "split_feature f = Inr (r1, r2)"
  from split_feature_Inr [OF this] obtain k where
    k: "list_index 1 (seperate_ids f) = Some k"
    and r: "input_ids r1 = take k (input_ids f)" "input_ids r2 = drop k (input_ids f)"
    by auto
  show "\<exists>k. k < length (seperate_ids f) \<and> seperate_ids f ! k = 1
             \<and> (\<forall>j<k. seperate_ids f ! j \<noteq> 1)
             \<and> input_ids r1 = take k (input_ids f) \<and> input_ids r2 = drop k (input_ids f)"
    using k r list_index_Some_iff [of 1 "seperate_ids f" k] by blast
qed

text \<open>
  The theorem at a batch whose second feature has no text2 token, and at a feature that
  splits at position 3.
\<close>

theorem collator_split_precondition_witness:
  "AngleDataCollator_call (\<lambda>rows. rows) True [example_pair_same, example_no_text2]
     = Inl ValueError
   \<and> split_feature example_no_text2 = Inl ValueError
   \<and> list_index 1 (seperate_ids example_pair_other) = Some 3
   \<and> (\<exists>r1 r2. split_feature example_pair_other = Inr (r1, r2)
        \<and> input_ids r1 = [101, 5, 102] \<and> input_ids r2 = [101, 7])"
proof -
  note t = collator_split_precondition
  have a: "\<exists>e. AngleDataCollator_call (\<lambda>rows. rows) True
                  [example_pair_same, example_no_text2] = Inl e"
    using t [of example_no_text2 "[example_pair_same, example_no_text2]"] by simp
  have a': "AngleDataCollator_call (\<lambda>rows. rows) True
                  [example_pair_same, example_no_text2] = Inl ValueError"
    by code_simp
  have b: "split_feature example_no_text2 = Inl ValueError"
    using t [of example_no_text2] by simp
  have c: "list_index 1 (seperate_ids example_pair_other) = Some 3" by simp
  have d: "\<exists>r1 r2. split_feature example_pair_other = Inr (r1, r2)
        \<and> input_ids r1 = [101, 5, 102] \<and> input_ids r2 = [101, 7]"
    by (simp add: split_feature_def)
  show ?thesis using a a' b c d by blast
qed

section \<open>Properties of the tokenization adapter\<close>

lemma scan_bad_index_range:
  "scan_bad_index ts prompt_ids b = b
   \<or> (\<exists>k < length prompt_ids. scan_bad_index ts prompt_ids b = int k)"
proof (induction ts arbitrary: b)
  case Nil
  show ?case by simp
next
  case (Cons t ts)
  show ?case
  proof (cases "list_index t prompt_ids")
    case None
    then show ?thesis by simp
  next
    case (Some k)
    then have k: "k < length prompt_ids" by (simp add: list_index_Some_iff)
    show ?thesis using Cons.IH [of "int k"] Some k by auto
  qed
qed

lemma fix_bad_data_cases:
  "fix_bad_data token_ids prompt_ids = token_ids
   \<or> (\<exists>k < length prompt_ids.
        fix_bad_data token_ids prompt_ids =
          py_upto token_ids (int (length token_ids) - int (length (drop k prompt_ids)))
            @ drop k prompt_ids)"
proof -
  let ?b = "scan_bad_index (rev token_ids) prompt_ids (- 1)"
  from scan_bad_index_range [of "rev token_ids" prompt_ids "- 1"]
  consider "?b = - 1" | k where "k < length prompt_ids" "?b = int k" by blast
  then show ?thesis
  proof cases
    case 1
    then show ?thesis by (simp add: fix_bad_data_def)
  next
    case 2
    then have "fix_bad_data token_ids prompt_ids =
          py_upto token_ids (int (length token_ids) - int (length (drop k prompt_ids)))
            @ drop k prompt_ids"
      by (simp add: fix_bad_data_def py_from_def Let_def)
    then show ?thesis using 2(1) by blast
  qed
qed

lemma fix_bad_data_last:
  assumes "fix_bad_data token_ids prompt_ids \<noteq> token_ids"
  shows "fix_bad_data token_ids prompt_ids \<noteq> []"
    and "last (fix_bad_data token_ids prompt_ids) = last prompt_ids"
proof -
  obtain k where k: "k < length prompt_ids"
    and f: "fix_bad_data token_ids prompt_ids =
          py_upto token_ids (int (length token_ids) - int (length (drop k prompt_ids)))
            @ drop k prompt_ids"
    using fix_bad_data_cases [of token_ids prompt_ids] assms by blast
  have ne: "drop k prompt_ids \<noteq> []" using k by simp
  show "fix_bad_data token_ids prompt_ids \<noteq> []" using f ne by simp
  show "last (fix_bad_data token_ids prompt_ids) = last prompt_ids"
    using f ne k by (simp add: last_drop)
qed


lemma fix_bad_data_nonempty:
  "token_ids \<noteq> [] \<Longrightarrow> fix_bad_data token_ids prompt_ids \<noteq> []"
  using fix_bad_data_last(1) [of token_ids prompt_ids] by (cases "fix_bad_data token_ids prompt_ids = token_ids") simp_all

text \<open>
  The splice is written to keep the length of the token list. It does so whenever the
  replaced suffix is no longer than the list; the length changes only when the suffix of
  the template is longer than the whole list, where the bound of the slice
  \<open>token_ids[:len(token_ids) - len(to_fix_ids)]\<close> turns negative and counts from the end.
\<close>

lemma fix_bad_data_length:
  assumes "length (fix_bad_data token_ids prompt_ids) \<noteq> length token_ids"
  shows "\<exists>k < length prompt_ids. length token_ids < length (drop k prompt_ids)"
proof -
  have ch: "fix_bad_data token_ids prompt_ids \<noteq> token_ids" using assms by auto
  obtain k where k: "k < length prompt_ids"
    and f: "fix_bad_data token_ids prompt_ids =
          py_upto token_ids (int (length token_ids) - int (length (drop k prompt_ids)))
            @ drop k prompt_ids"
    using fix_bad_data_cases [of token_ids prompt_ids] ch by blast
  have "length token_ids < length (drop k prompt_ids)"
  proof (rule ccontr)
    assume "\<not> length token_ids < length (drop k prompt_ids)"
    then have le: "length (drop k prompt_ids) \<le> length token_ids" by simp
    then have "py_upto token_ids (int (length token_ids) - int (length (drop k prompt_ids)))
                 = take (length token_ids - length (drop k prompt_ids)) token_ids"
      by (simp add: py_upto_def nat_diff_distrib')
    then have "length (fix_bad_data token_ids prompt_ids) = length token_ids"
      using f le by simp
    then show False using assms by simp
  qed
  then show ?thesis using k by blast
qed

text \<open>
  On non-empty token lists the guard itself never raises, and when the final token still
  differs from the template's after the repair, the token list is kept as it was and the
  warning is printed.
\<close>

lemma template_guard_total:
  assumes "input_ids tk \<noteq> []" and "prompt_ids \<noteq> []"
  shows "\<exists>r. template_guard tk prompt_ids = Inr r"
  using assms fix_bad_data_nonempty [OF assms(1), of prompt_ids]
  by (simp add: template_guard_def Let_def)

lemma template_guard_final_token_mismatch:
  assumes "input_ids tk \<noteq> []" and "prompt_ids \<noteq> []"
    and "last (fix_bad_data (input_ids tk) prompt_ids) \<noteq> last prompt_ids"
  shows "template_guard tk prompt_ids
           = Inr (tk, [BadData (input_ids tk) prompt_ids, FailedToFix])"
proof -
  have same: "fix_bad_data (input_ids tk) prompt_ids = input_ids tk"
    using fix_bad_data_last(2) [of "input_ids tk" prompt_ids] assms(3) by blast
  then have "last (input_ids tk) \<noteq> last prompt_ids" using assms(3) by simp
  then show ?thesis using assms same by (simp add: template_guard_def Let_def)
qed

text \<open>
  Claim C6. The claim holds on the path above and fails on the other failure path, where
  the lengths disagree after the repair. With the token list \<open>[1, 2]\<close> and the template
  tokens \<open>[1, 2, 3]\<close> the splice is \<open>[1, 2][:-1] + [1, 2, 3] = [1, 1, 2, 3]\<close>; the guard's
  length assertion fails and the warning is printed, but \<open>input_ids\<close> was overwritten before
  the check, so the splice is kept beside the attention mask \<open>[1, 1]\<close>, not the original
  list. The feature assembled from it fails the collator's length assertion, so the run
  does not continue.
\<close>

theorem template_guard_length_slip:
  "fix_bad_data [1, 2] [1, 2, 3] = [1, 1, 2, 3]
   \<and> template_guard \<lparr>input_ids = [1, 2], attention_mask = [1, 1], token_type_ids = None\<rparr>
         [1, 2, 3]
       = Inr (\<lparr>input_ids = [1, 1, 2, 3], attention_mask = [1, 1], token_type_ids = None\<rparr>,
              [BadData [1, 2] [1, 2, 3], FailedToFix])
   \<and> AngleDataTokenizer_finish (Some [1, 2, 3])
         \<lparr>input_ids = [1, 2], attention_mask = [1, 1], token_type_ids = None\<rparr>
         \<lparr>input_ids = [7, 3], attention_mask = [1, 1], token_type_ids = None\<rparr> 1
       = Inr (\<lparr>input_ids = [1, 1, 2, 3, 7, 3], attention_mask = [1, 1, 1, 1],
                token_type_ids = None, labels = [1], seperate_ids = [0, 0, 0, 0, 1, 1]\<rparr>,
              [BadData [1, 2] [1, 2, 3], FailedToFix])
   \<and> AngleDataCollator_call (\<lambda>rows. rows) True
         [\<lparr>input_ids = [1, 1, 2, 3, 7, 3], attention_mask = [1, 1, 1, 1],
           token_type_ids = None, labels = [1], seperate_ids = [0, 0, 0, 0, 1, 1]\<rparr>]
       = Inl AssertionError"
proof -
  have f: "fix_bad_data [1, 2] [1, 2, 3] = [1, 1, 2, 3]"
    by (simp add: fix_bad_data_def py_from_def py_upto_def)
  have g1: "template_guard \<lparr>input_ids = [1, 2], attention_mask = [1, 1], token_type_ids = None\<rparr>
         [1, 2, 3]
       = Inr (\<lparr>input_ids = [1, 1, 2, 3], attention_mask = [1, 1], token_type_ids = None\<rparr>,
              [BadData [1, 2] [1, 2, 3], FailedToFix])"
    by (simp add: template_guard_def f)
  have g2: "template_guard \<lparr>input_ids = [7, 3], attention_mask = [1, 1], token_type_ids = None\<rparr>
         [1, 2, 3]
       = Inr (\<lparr>input_ids = [7, 3], attention_mask = [1, 1], token_type_ids = None\<rparr>, [])"
    by (simp add: template_guard_def)
  have fin: "AngleDataTokenizer_finish (Some [1, 2, 3])
         \<lparr>input_ids = [1, 2], attention_mask = [1, 1], token_type_ids = None\<rparr>
         \<lparr>input_ids = [7, 3], attention_mask = [1, 1], token_type_ids = None\<rparr> 1
       = Inr (\<lparr>input_ids = [1, 1, 2, 3, 7, 3], attention_mask = [1, 1, 1, 1],
                token_type_ids = None, labels = [1], seperate_ids = [0, 0, 0, 0, 1, 1]\<rparr>,
              [BadData [1, 2] [1, 2, 3], FailedToFix])"
    by (simp add: AngleDataTokenizer_finish_def g1 g2 merge_tok_def numeral_eq_Suc)
  have col: "AngleDataCollator_call (\<lambda>rows. rows) True
         [\<lparr>input_ids = [1, 1, 2, 3, 7, 3], attention_mask = [1, 1, 1, 1],
           token_type_ids = None, labels = [1], seperate_ids = [0, 0, 0, 0, 1, 1]\<rparr>]
       = Inl AssertionError"
    by (simp add: AngleDataCollator_call_def split_feature_def)
  show ?thesis using f g1 fin col by blast
qed

section \<open>Properties of the pooling adapter\<close>

lemma sequence_err_map_Inl:
  "sequence_err (map f xs) = Inl e \<Longrightarrow> \<exists>x \<in> set xs. f x = Inl e"
  by (induction xs) (auto split: sum.splits)

lemma sequence_err_Inr:
  "\<forall>x \<in> set xs. \<exists>v. x = Inr v \<Longrightarrow> \<exists>vs. sequence_err xs = Inr vs \<and> length vs = length xs"
proof (induction xs)
  case Nil
  show ?case by simp
next
  case (Cons x xs)
  obtain v where v: "x = Inr v" using Cons.prems by auto
  obtain vs where vs: "sequence_err xs = Inr vs" "length vs = length xs"
    using Cons by auto
  show ?case using v vs by simp
qed

lemma sequence_err_map_Inr:
  "\<forall>x \<in> set xs. \<exists>v. f x = Inr v
   \<Longrightarrow> \<exists>vs. sequence_err (map f xs) = Inr vs \<and> length vs = length xs"
  using sequence_err_Inr [of "map f xs"] by auto

lemma py_index_error: "py_index xs i = Inl e \<Longrightarrow> e = IndexError"
  by (auto simp: py_index_def split: if_splits)

lemma py_index_ok:
  "- int (length xs) \<le> i \<Longrightarrow> i < int (length xs) \<Longrightarrow> \<exists>v. py_index xs i = Inr v"
  by (auto simp: py_index_def)

lemma sequence_length_error: "sequence_length pad row = Inl e \<Longrightarrow> e = IndexError"
  by (auto simp: sequence_length_def split: if_splits)

lemma sequence_length_ok:
  assumes "row \<noteq> []"
  shows "\<exists>s. sequence_length pad row = Inr s \<and> - 1 \<le> s \<and> s < int (length row) - 1"
proof (cases "list_index pad row")
  case None
  then show ?thesis using assms by (simp add: sequence_length_def)
next
  case (Some k)
  then have "k < length row" by (simp add: list_index_Some_iff)
  then show ?thesis using assms Some by (simp add: sequence_length_def)
qed

lemma max_tokens_error: "max_tokens row = Inl e \<Longrightarrow> e = IndexError"
  by (auto simp: max_tokens_def split: list.splits)

lemma cls_avg_tokens_error: "cls_avg_tokens row = Inl e \<Longrightarrow> e = IndexError"
  by (auto simp: cls_avg_tokens_def split: sum.splits dest: py_index_error)

lemma on_tokens_error:
  assumes "\<And>row e. f row = Inl e \<Longrightarrow> e = IndexError" and "on_tokens hs f = Inl e"
  shows "e = IndexError"
proof (cases "seq_len hs = 0")
  case True
  then show ?thesis using assms(2) by (simp add: on_tokens_def)
next
  case False
  then have "sequence_err (map f (vectors hs)) = Inl e"
    using assms(2) by (simp add: on_tokens_def)
  from sequence_err_map_Inl [OF this] show ?thesis using assms(1) by blast
qed

lemma sequence_lengths_of_error: "sequence_lengths_of pad t = Inl e \<Longrightarrow> e = IndexError"
proof -
  assume a: "sequence_lengths_of pad t = Inl e"
  show ?thesis
  proof (cases "ids_len t = 0")
    case True
    then show ?thesis using a by (simp add: sequence_lengths_of_def)
  next
    case False
    then have "sequence_err (map (sequence_length pad) (id_rows t)) = Inl e"
      using a by (simp add: sequence_lengths_of_def)
    from sequence_err_map_Inl [OF this] show ?thesis using sequence_length_error by blast
  qed
qed

lemma index_rows_error:
  assumes "index_rows hs sl = Inl e"
  shows "e = IndexError"
proof (cases sl)
  case (Scalar s)
  show ?thesis
  proof (cases "- int (seq_len hs) \<le> s \<and> s < int (seq_len hs)")
    case True
    then have "sequence_err (map (\<lambda>row. py_index row s) (vectors hs)) = Inl e"
      using assms Scalar by (simp add: index_rows_def)
    from sequence_err_map_Inl [OF this] show ?thesis using py_index_error by blast
  next
    case False
    then show ?thesis using assms Scalar by (auto simp: index_rows_def)
  qed
next
  case (Tensor ss)
  let ?rows = "vectors hs"
  consider "length ss = length ?rows" | "length ss \<noteq> length ?rows" "length ss = 1"
    | "length ss \<noteq> length ?rows" "length ss \<noteq> 1" "length ?rows = 1"
    | "length ss \<noteq> length ?rows" "length ss \<noteq> 1" "length ?rows \<noteq> 1" by blast
  then show ?thesis
  proof cases
    case 1
    then have "sequence_err (map (\<lambda>(row, s). py_index row s) (zip ?rows ss)) = Inl e"
      using assms Tensor by (simp add: index_rows_def)
    from sequence_err_map_Inl [OF this] show ?thesis using py_index_error by fastforce
  next
    case 2
    then have "sequence_err (map (\<lambda>row. py_index row (hd ss)) ?rows) = Inl e"
      using assms Tensor by (simp add: index_rows_def)
    from sequence_err_map_Inl [OF this] show ?thesis using py_index_error by blast
  next
    case 3
    then have "sequence_err (map (py_index (hd ?rows)) ss) = Inl e"
      using assms Tensor by (simp add: index_rows_def)
    from sequence_err_map_Inl [OF this] show ?thesis using py_index_error by blast
  next
    case 4
    then show ?thesis using assms Tensor by (simp add: index_rows_def)
  qed
qed

lemma Pooler_call_llm_error:
  assumes "is_llm self"
    and "\<not> (pad_token_id self = None \<and> length (vectors (model self inputs)) \<noteq> 1)"
    and "Pooler_call self inputs = Inl e"
  shows "e = IndexError \<or> e = KeyError"
proof -
  let ?hs = "model self inputs"
  let ?sl = "(case pad_token_id self of
                       None \<Rightarrow> Inr (Scalar (- 1))
                     | Some pad \<Rightarrow>
                         (case model_input_ids inputs of
                            Absent \<Rightarrow> Inl KeyError
                          | Ids t \<Rightarrow>
                              (case sequence_lengths_of pad t of
                                 Inl e \<Rightarrow> Inl e
                               | Inr ss \<Rightarrow> Inr (Tensor ss))
                          | IsNone \<Rightarrow> Inr (Scalar (- 1))))"
  have call: "Pooler_call self inputs =
      (case ?sl of Inl e \<Rightarrow> Inl e | Inr sequence_lengths \<Rightarrow> index_rows ?hs sequence_lengths)"
    using assms(1,2) unfolding Pooler_call_def Let_def by (simp only: if_True if_False)
  show ?thesis
  proof (cases ?sl)
    case (Inl e')
    then have e: "e' = e" using call assms(3) by simp
    from Inl have "e' = KeyError \<or> (\<exists>pad t. sequence_lengths_of pad t = Inl e')"
      by (auto split: option.splits input_ids_entry.splits sum.splits)
    then show ?thesis using e sequence_lengths_of_error by blast
  next
    case (Inr sl)
    then have "index_rows ?hs sl = Inl e" using call assms(3) by simp
    then show ?thesis using index_rows_error by blast
  qed
qed

lemma Pooler_call_encoder_error:
  assumes "\<not> is_llm self" and "known_strategy (pooling_strategy self)"
    and "Pooler_call self inputs = Inl e"
  shows "e = IndexError"
proof -
  let ?o = "model self inputs"
  consider "pooling_strategy self = Some ''cls''" | "pooling_strategy self = Some ''cls_avg''"
    | "pooling_strategy self = Some ''last''" | "pooling_strategy self = Some ''avg''"
    | "pooling_strategy self = Some ''max''"
    using assms(2) unfolding known_strategy_def by blast
  then show ?thesis
  proof cases
    case 1
    then have "on_tokens ?o (\<lambda>row. py_index row 0) = Inl e"
      using assms(1,3) by (simp add: Pooler_call_def)
    then show ?thesis by (rule on_tokens_error [rotated]) (erule py_index_error)
  next
    case 2
    then have "on_tokens ?o cls_avg_tokens = Inl e"
      using assms(1,3) by (simp add: Pooler_call_def)
    then show ?thesis by (rule on_tokens_error [rotated]) (erule cls_avg_tokens_error)
  next
    case 3
    then have "on_tokens ?o (\<lambda>row. py_index row (- 1)) = Inl e"
      using assms(1,3) by (simp add: Pooler_call_def)
    then show ?thesis by (rule on_tokens_error [rotated]) (erule py_index_error)
  next
    case 4
    then show ?thesis using assms(1,3) by (simp add: Pooler_call_def)
  next
    case 5
    then have "on_tokens ?o max_tokens = Inl e"
      using assms(1,3) by (simp add: Pooler_call_def)
    then show ?thesis by (rule on_tokens_error [rotated]) (erule max_tokens_error)
  qed
qed

text \<open>
  The two \<open>raise\<close> statements, on every input: \<open>NotImplementedError\<close> and \<open>ValueError\<close>
  leave \<open>__call__\<close> exactly under their guards, and the guard of the pad token compares
  the batch size with 1. Every other exception is an \<open>IndexError\<close> or a \<open>KeyError\<close>.
\<close>

lemma Pooler_call_guards:
  "(\<not> is_llm self \<and> \<not> known_strategy (pooling_strategy self)
      \<longrightarrow> Pooler_call self inputs = Inl NotImplementedError)
   \<and> (is_llm self \<and> pad_token_id self = None \<and> length (vectors (model self inputs)) \<noteq> 1
      \<longrightarrow> Pooler_call self inputs = Inl ValueError)
   \<and> ((Pooler_call self inputs = Inl ValueError
        \<or> Pooler_call self inputs = Inl NotImplementedError)
      \<longleftrightarrow> (\<not> is_llm self \<and> \<not> known_strategy (pooling_strategy self))
          \<or> (is_llm self \<and> pad_token_id self = None
              \<and> length (vectors (model self inputs)) \<noteq> 1))"
proof -
  let ?unknown = "\<not> is_llm self \<and> \<not> known_strategy (pooling_strategy self)"
  let ?nopad = "is_llm self \<and> pad_token_id self = None
                  \<and> length (vectors (model self inputs)) \<noteq> 1"
  have a: "Pooler_call self inputs = Inl NotImplementedError" if ?unknown
    using that by (simp add: Pooler_call_def known_strategy_def)
  have b: "Pooler_call self inputs = Inl ValueError" if ?nopad
    using that by (simp add: Pooler_call_def Let_def)
  have c: "?unknown \<or> ?nopad"
    if h: "Pooler_call self inputs = Inl ValueError
        \<or> Pooler_call self inputs = Inl NotImplementedError"
  proof (rule ccontr)
    assume n: "\<not> (?unknown \<or> ?nopad)"
    obtain e where e: "Pooler_call self inputs = Inl e" "e = ValueError \<or> e = NotImplementedError"
      using h by blast
    have "e = IndexError \<or> e = KeyError"
    proof (cases "is_llm self")
      case True
      then show ?thesis using Pooler_call_llm_error [OF True _ e(1)] n by blast
    next
      case False
      then show ?thesis using Pooler_call_encoder_error [OF False _ e(1)] n by blast
    qed
    then show False using e(2) by auto
  qed
  show ?thesis using a b c by blast
qed


lemma sequence_lengths_ok:
  assumes "\<forall>r \<in> set rows. r \<noteq> []"
  shows "\<exists>ss. sequence_err (map (sequence_length pad) rows) = Inr ss \<and> length ss = length rows
     \<and> (\<forall>k < length rows. - 1 \<le> ss ! k \<and> ss ! k < int (length (rows ! k)) - 1)"
  using assms
proof (induction rows)
  case Nil
  show ?case by simp
next
  case (Cons r rows)
  obtain s where s: "sequence_length pad r = Inr s" "- 1 \<le> s" "s < int (length r) - 1"
    using sequence_length_ok [of r pad] Cons.prems by auto
  obtain ss where ss: "sequence_err (map (sequence_length pad) rows) = Inr ss"
    "length ss = length rows"
    "\<forall>k < length rows. - 1 \<le> ss ! k \<and> ss ! k < int (length (rows ! k)) - 1"
    using Cons by auto
  have "\<forall>k < length (r # rows).
          - 1 \<le> (s # ss) ! k \<and> (s # ss) ! k < int (length ((r # rows) ! k)) - 1"
    using s ss(3) by (auto simp: nth_Cons split: nat.splits)
  then show ?case using s(1) ss(1,2) by simp
qed

lemma Pooler_call_total:
  assumes pb: "proper_batch self inputs"
    and ok: "\<not> ((\<not> is_llm self \<and> \<not> known_strategy (pooling_strategy self))
              \<or> (is_llm self \<and> pad_token_id self = None
                  \<and> length (vectors (model self inputs)) \<noteq> 1))"
  shows "\<exists>out. Pooler_call self inputs = Inr out
           \<and> length out = length (vectors (model self inputs))"
proof -
  let ?hs = "model self inputs"
  let ?rows = "vectors ?hs"
  have T: "0 < seq_len ?hs" and rect: "\<forall>row \<in> set ?rows. length row = seq_len ?hs"
    using pb by (simp_all add: proper_batch_def list_all_iff)
  have ne: "\<forall>row \<in> set ?rows. row \<noteq> []" using T rect by auto
  have first: "\<forall>row \<in> set ?rows. \<exists>v. py_index row 0 = Inr v"
    using ne by (auto intro!: py_index_ok)
  have lst: "\<forall>row \<in> set ?rows. \<exists>v. py_index row (- 1) = Inr v"
  proof
    fix row assume "row \<in> set ?rows"
    then have "row \<noteq> []" using ne by blast
    then have "- int (length row) \<le> - 1" "- 1 < int (length row)" by (cases row; simp)+
    then show "\<exists>v. py_index row (- 1) = Inr v" by (rule py_index_ok)
  qed
  have tok: "\<exists>out. on_tokens ?hs f = Inr out \<and> length out = length ?rows"
    if "\<forall>row \<in> set ?rows. \<exists>v. f row = Inr v" for f :: "real list list \<Rightarrow> error + real list"
    using sequence_err_map_Inr [OF that] T by (simp add: on_tokens_def)
  show ?thesis
  proof (cases "is_llm self")
    case False
    then have k: "known_strategy (pooling_strategy self)" using ok by blast
    consider "pooling_strategy self = Some ''cls''" | "pooling_strategy self = Some ''cls_avg''"
      | "pooling_strategy self = Some ''last''" | "pooling_strategy self = Some ''avg''"
      | "pooling_strategy self = Some ''max''"
      using k unfolding known_strategy_def by blast
    then show ?thesis
    proof cases
      case 1
      then show ?thesis using False tok [OF first] by (simp add: Pooler_call_def)
    next
      case 2
      have "\<forall>row \<in> set ?rows. \<exists>v. cls_avg_tokens row = Inr v"
        using first by (fastforce simp: cls_avg_tokens_def)
      then show ?thesis using False 2 tok [of cls_avg_tokens] by (simp add: Pooler_call_def)
    next
      case 3
      then show ?thesis using False tok [OF lst] by (simp add: Pooler_call_def)
    next
      case 4
      then show ?thesis using False by (simp add: Pooler_call_def)
    next
      case 5
      have "\<forall>row \<in> set ?rows. \<exists>v. max_tokens row = Inr v"
        using ne by (auto simp: max_tokens_def split: list.splits)
      then show ?thesis using False 5 tok [of max_tokens] by (simp add: Pooler_call_def)
    qed
  next
    case True
    have "\<exists>out. sequence_err (map (\<lambda>row. py_index row (- 1)) ?rows) = Inr out
            \<and> length out = length ?rows"
      by (rule sequence_err_map_Inr [OF lst])
    then have scalar: "\<exists>out. index_rows ?hs (Scalar (- 1)) = Inr out \<and> length out = length ?rows"
      using T by (simp add: index_rows_def)
    show ?thesis
    proof (cases "pad_token_id self")
      case None
      then show ?thesis using True ok scalar by (simp add: Pooler_call_def Let_def)
    next
      case (Some pad)
      have like: "ids_like ?hs (model_input_ids inputs)"
        using pb True Some by (simp add: proper_batch_def)
      show ?thesis
      proof (cases "model_input_ids inputs")
        case Absent
        then show ?thesis using like by (simp add: ids_like_def)
      next
        case IsNone
        then show ?thesis using True Some scalar by (simp add: Pooler_call_def Let_def)
      next
        case (Ids t)
        have tl: "ids_len t = seq_len ?hs" and len: "length (id_rows t) = length ?rows"
          and trect: "\<forall>r \<in> set (id_rows t). length r = ids_len t"
          using like Ids by (simp_all add: ids_like_def list_all_iff)
        have "\<forall>r \<in> set (id_rows t). r \<noteq> []" using trect tl T by auto
        then obtain ss where ss: "sequence_err (map (sequence_length pad) (id_rows t)) = Inr ss"
          "length ss = length (id_rows t)"
          "\<forall>k < length (id_rows t). - 1 \<le> ss ! k \<and> ss ! k < int (length (id_rows t ! k)) - 1"
          using sequence_lengths_ok by blast
        have sl: "sequence_lengths_of pad t = Inr ss"
          using ss(1) tl T by (simp add: sequence_lengths_of_def)
        have "\<forall>p \<in> set (zip ?rows ss). \<exists>v. (\<lambda>(row, s). py_index row s) p = Inr v"
        proof
          fix p assume "p \<in> set (zip ?rows ss)"
          then obtain k where k: "k < length ?rows" "k < length ss" "p = (?rows ! k, ss ! k)"
            by (auto simp: in_set_conv_nth)
          have lk: "length (id_rows t ! k) = seq_len ?hs" "length (?rows ! k) = seq_len ?hs"
            using trect tl rect k len by simp_all
          have "- 1 \<le> ss ! k" "ss ! k < int (seq_len ?hs) - 1"
            using ss(3) k len lk by auto
          then have "- int (length (?rows ! k)) \<le> ss ! k" "ss ! k < int (length (?rows ! k))"
            using T lk by linarith+
          then have "\<exists>v. py_index (?rows ! k) (ss ! k) = Inr v" by (rule py_index_ok)
          then show "\<exists>v. (\<lambda>(row, s). py_index row s) p = Inr v" using k by simp
        qed
        then obtain out where out:
          "sequence_err (map (\<lambda>(row, s). py_index row s) (zip ?rows ss)) = Inr out"
          "length out = length (zip ?rows ss)"
          using sequence_err_map_Inr [of "zip ?rows ss" "\<lambda>(row, s). py_index row s"] by blast
        have "index_rows ?hs (Tensor ss) = Inr out"
          using out(1) ss(2) len by (simp add: index_rows_def)
        moreover have "length out = length ?rows" using out(2) ss(2) len by simp
        ultimately show ?thesis
          using True Some Ids sl by (simp add: Pooler_call_def Let_def)
      qed
    qed
  qed
qed

text \<open>
  Claim C7. The spec's \<open>ConfigurationError\<close> is Python's \<open>NotImplementedError\<close> (unknown
  strategy) and \<open>ValueError\<close> (no pad token). On a batch with at least one row and one
  token, \<open>Pooler.__call__\<close> raises in exactly two situations, and then with that
  exception: off the decoder-only path with a pooling strategy it does not know, and on
  the decoder-only path with no pad token id and a batch size greater than 1. In every
  other configuration it does not raise and returns one vector per row.
\<close>

theorem Pooler_call_configuration_errors:
  assumes "proper_batch self inputs"
  shows "(\<not> is_llm self \<and> \<not> known_strategy (pooling_strategy self)
            \<longrightarrow> Pooler_call self inputs = Inl NotImplementedError)
     \<and> (is_llm self \<and> pad_token_id self = None \<and> 1 < length (vectors (model self inputs))
            \<longrightarrow> Pooler_call self inputs = Inl ValueError)
     \<and> ((\<exists>e. Pooler_call self inputs = Inl e)
          \<longleftrightarrow> (\<not> is_llm self \<and> \<not> known_strategy (pooling_strategy self))
              \<or> (is_llm self \<and> pad_token_id self = None
                  \<and> 1 < length (vectors (model self inputs))))
     \<and> (\<not> ((\<not> is_llm self \<and> \<not> known_strategy (pooling_strategy self))
              \<or> (is_llm self \<and> pad_token_id self = None
                  \<and> 1 < length (vectors (model self inputs))))
          \<longrightarrow> (\<exists>out. Pooler_call self inputs = Inr out
                 \<and> length out = length (vectors (model self inputs))))"
proof -
  let ?B = "length (vectors (model self inputs))"
  let ?unknown = "\<not> is_llm self \<and> \<not> known_strategy (pooling_strategy self)"
  let ?nopad = "is_llm self \<and> pad_token_id self = None \<and> 1 < ?B"
  have B: "0 < ?B" using assms by (simp add: proper_batch_def)
  then have size: "(?B \<noteq> 1) = (1 < ?B)" by arith
  note g = Pooler_call_guards [of self inputs, unfolded size]
  have a: "?unknown \<longrightarrow> Pooler_call self inputs = Inl NotImplementedError" using g by blast
  have b: "?nopad \<longrightarrow> Pooler_call self inputs = Inl ValueError" using g by blast
  have d: "\<exists>out. Pooler_call self inputs = Inr out \<and> length out = ?B"
    if "\<not> (?unknown \<or> ?nopad)"
    using Pooler_call_total [OF assms] that size by blast
  have c: "(\<exists>e. Pooler_call self inputs = Inl e) \<longleftrightarrow> ?unknown \<or> ?nopad"
  proof
    assume "\<exists>e. Pooler_call self inputs = Inl e"
    then show "?unknown \<or> ?nopad" using d by (cases "?unknown \<or> ?nopad") auto
  next
    assume "?unknown \<or> ?nopad"
    then show "\<exists>e. Pooler_call self inputs = Inl e" using a b by blast
  qed
  show ?thesis using a b c d by blast
qed


text \<open>
  The pooling strategies on the hidden states \<open>[[1, 2], [3, 4], [5, 6]]\<close> of one row, and the
  decoder-only path on a row whose third token is the pad token.
\<close>

lemma Pooler_call_examples:
  "Pooler_call \<lparr>model = (\<lambda>i. \<lparr>seq_len = 3, vectors = [[[1, 2], [3, 4], [5, 6]]]\<rparr>),
       pad_token_id = None, pooling_strategy = Some ''cls'', is_llm = False\<rparr>
       \<lparr>model_input_ids = IsNone\<rparr>
     = Inr [[1, 2]]"
  "Pooler_call \<lparr>model = (\<lambda>i. \<lparr>seq_len = 3, vectors = [[[1, 2], [3, 4], [5, 6]]]\<rparr>),
       pad_token_id = None, pooling_strategy = Some ''avg'', is_llm = False\<rparr>
       \<lparr>model_input_ids = IsNone\<rparr>
     = Inr [[3, 4]]"
  "Pooler_call \<lparr>model = (\<lambda>i. \<lparr>seq_len = 3, vectors = [[[1, 2], [3, 4], [5, 6]]]\<rparr>),
       pad_token_id = None, pooling_strategy = Some ''max'', is_llm = False\<rparr>
       \<lparr>model_input_ids = IsNone\<rparr>
     = Inr [[5, 6]]"
  "Pooler_call \<lparr>model = (\<lambda>i. \<lparr>seq_len = 3, vectors = [[[1, 2], [3, 4], [5, 6]]]\<rparr>),
       pad_token_id = Some 0, pooling_strategy = None, is_llm = True\<rparr>
       \<lparr>model_input_ids = Ids \<lparr>ids_len = 3, id_rows = [[7, 8, 0]]\<rparr>\<rparr>
     = Inr [[3, 4]]"
  by (simp_all add: Pooler_call_def on_tokens_def py_index_def mean_tokens_def max_tokens_def
        vec_add_def index_rows_def sequence_length_def sequence_lengths_of_def)

text \<open>
  Shapes outside the theorem: a token dimension of size 0 raises \<open>IndexError\<close> also on an
  empty batch, an empty batch of shape \<open>(0, 3, H)\<close> gives an empty result, an empty batch
  without a pad token meets the guard \<open>batch_size != 1\<close>, and a missing key \<open>input_ids\<close>
  raises \<open>KeyError\<close>.
\<close>

lemma Pooler_call_empty_shapes:
  "Pooler_call \<lparr>model = (\<lambda>i. \<lparr>seq_len = 0, vectors = []\<rparr>),
       pad_token_id = None, pooling_strategy = Some ''last'', is_llm = False\<rparr>
       \<lparr>model_input_ids = IsNone\<rparr>
     = Inl IndexError"
  "Pooler_call \<lparr>model = (\<lambda>i. \<lparr>seq_len = 3, vectors = []\<rparr>),
       pad_token_id = None, pooling_strategy = Some ''last'', is_llm = False\<rparr>
       \<lparr>model_input_ids = IsNone\<rparr>
     = Inr []"
  "Pooler_call \<lparr>model = (\<lambda>i. \<lparr>seq_len = 3, vectors = []\<rparr>),
       pad_token_id = None, pooling_strategy = None, is_llm = True\<rparr>
       \<lparr>model_input_ids = IsNone\<rparr>
     = Inl ValueError"
  "Pooler_call \<lparr>model = (\<lambda>i. \<lparr>seq_len = 3, vectors = [[[1, 2], [3, 4], [5, 6]]]\<rparr>),
       pad_token_id = Some 0, pooling_strategy = None, is_llm = True\<rparr>
       \<lparr>model_input_ids = Absent\<rparr>
     = Inl KeyError"
  by (simp_all add: Pooler_call_def on_tokens_def)

text \<open>
  The theorem at an unknown strategy, at two rows without a pad token, at one padded row
  on the decoder-only path, and at a single row without a pad token.
\<close>

theorem Pooler_call_configuration_errors_witness:
  "Pooler_call \<lparr>model = (\<lambda>i. \<lparr>seq_len = 3, vectors = [[[1, 2], [3, 4], [5, 6]]]\<rparr>),
       pad_token_id = None, pooling_strategy = Some ''mean'', is_llm = False\<rparr>
       \<lparr>model_input_ids = IsNone\<rparr>
     = Inl NotImplementedError
   \<and> Pooler_call \<lparr>model = (\<lambda>i. \<lparr>seq_len = 1, vectors = [[[1, 2]], [[3, 4]]]\<rparr>),
       pad_token_id = None, pooling_strategy = None, is_llm = True\<rparr>
       \<lparr>model_input_ids = IsNone\<rparr>
     = Inl ValueError
   \<and> (\<exists>out. Pooler_call
         \<lparr>model = (\<lambda>i. \<lparr>seq_len = 3, vectors = [[[1, 2], [3, 4], [5, 6]]]\<rparr>),
          pad_token_id = Some 0, pooling_strategy = None, is_llm = True\<rparr>
         \<lparr>model_input_ids = Ids \<lparr>ids_len = 3, id_rows = [[7, 8, 0]]\<rparr>\<rparr>
       = Inr out \<and> length out = 1)
   \<and> (\<exists>out. Pooler_call
         \<lparr>model = (\<lambda>i. \<lparr>seq_len = 1, vectors = [[[1, 2]]]\<rparr>),
          pad_token_id = None, pooling_strategy = None, is_llm = True\<rparr>
         \<lparr>model_input_ids = IsNone\<rparr>
       = Inr out \<and> length out = 1)"
proof -
  note t = Pooler_call_configuration_errors
  let ?one = "\<lambda>i :: model_inputs. \<lparr>seq_len = 3, vectors = [[[1, 2], [3, 4], [5, 6 :: real]]]\<rparr>"
  have p1: "proper_batch \<lparr>model = ?one, pad_token_id = None,
       pooling_strategy = Some ''mean'', is_llm = False\<rparr> \<lparr>model_input_ids = IsNone\<rparr>"
    by (simp add: proper_batch_def)
  have a: "Pooler_call \<lparr>model = ?one, pad_token_id = None,
       pooling_strategy = Some ''mean'', is_llm = False\<rparr> \<lparr>model_input_ids = IsNone\<rparr>
     = Inl NotImplementedError"
    using t [OF p1] by (simp add: known_strategy_def)
  let ?two = "\<lambda>i :: model_inputs. \<lparr>seq_len = 1, vectors = [[[1, 2]], [[3, 4 :: real]]]\<rparr>"
  have p2: "proper_batch \<lparr>model = ?two, pad_token_id = None,
       pooling_strategy = None, is_llm = True\<rparr> \<lparr>model_input_ids = IsNone\<rparr>"
    by (simp add: proper_batch_def)
  have b: "Pooler_call \<lparr>model = ?two, pad_token_id = None,
       pooling_strategy = None, is_llm = True\<rparr> \<lparr>model_input_ids = IsNone\<rparr>
     = Inl ValueError"
    using t [OF p2] by simp
  have p3: "proper_batch \<lparr>model = ?one, pad_token_id = Some 0,
       pooling_strategy = None, is_llm = True\<rparr>
       \<lparr>model_input_ids = Ids \<lparr>ids_len = 3, id_rows = [[7, 8, 0]]\<rparr>\<rparr>"
    by (simp add: proper_batch_def ids_like_def)
  have c: "\<exists>out. Pooler_call \<lparr>model = ?one, pad_token_id = Some 0,
       pooling_strategy = None, is_llm = True\<rparr>
       \<lparr>model_input_ids = Ids \<lparr>ids_len = 3, id_rows = [[7, 8, 0]]\<rparr>\<rparr>
     = Inr out \<and> length out = 1"
    using t [OF p3] by simp
  let ?single = "\<lambda>i :: model_inputs. \<lparr>seq_len = 1, vectors = [[[1, 2 :: real]]]\<rparr>"
  have p4: "proper_batch \<lparr>model = ?single, pad_token_id = None,
       pooling_strategy = None, is_llm = True\<rparr> \<lparr>model_input_ids = IsNone\<rparr>"
    by (simp add: proper_batch_def)
  have d: "\<exists>out. Pooler_call \<lparr>model = ?single, pad_token_id = None,
       pooling_strategy = None, is_llm = True\<rparr> \<lparr>model_input_ids = IsNone\<rparr>
     = Inr out \<and> length out = 1"
    using t [OF p4] by simp
  show ?thesis using a b c d by blast
qed

section \<open>Properties of the configuration\<close>

lemma exec_cfg:
  "cfg (snd (exec op s)) =
     (case op of
        Fit output_dir c \<Rightarrow> (cfg s)(''compute_similar_matrix'' \<mapsto> CBool c)
      | _ \<Rightarrow> cfg s)"
  by (cases op) (simp_all add: Let_def split: option.splits)

lemma run_cfg_other_keys:
  "k \<noteq> ''compute_similar_matrix'' \<Longrightarrow> cfg (run ops s) k = cfg s k"
proof (induction ops arbitrary: s)
  case Nil
  show ?case by simp
next
  case (Cons op ops)
  have "cfg (snd (exec op s)) k = cfg s k"
    using Cons.prems by (cases op) (simp_all add: exec_cfg del: exec.simps)
  then show ?case using Cons by simp
qed

lemma run_cfg_no_fit:
  "\<forall>op \<in> set ops. \<not> is_fit op \<Longrightarrow> cfg (run ops s) = cfg s"
proof (induction ops arbitrary: s)
  case Nil
  show ?case by simp
next
  case (Cons op ops)
  have "\<not> is_fit op" using Cons.prems by simp
  then have "cfg (snd (exec op s)) = cfg s"
    by (cases op) (simp_all add: exec_cfg del: exec.simps)
  then show ?case using Cons by simp
qed

text \<open>
  Claim C8, as amended. Over every sequence of method calls after construction, every key
  of the configuration other than \<open>compute_similar_matrix\<close> keeps its value; a sequence
  without \<open>fit\<close> leaves the whole configuration unchanged; and \<open>fit\<close> sets the key
  \<open>compute_similar_matrix\<close> to its argument.
\<close>

theorem config_changed_only_by_fit:
  "(\<forall>k. k \<noteq> ''compute_similar_matrix'' \<longrightarrow> cfg (run ops s) k = cfg s k)
   \<and> ((\<forall>op \<in> set ops. \<not> is_fit op) \<longrightarrow> cfg (run ops s) = cfg s)
   \<and> cfg (snd (exec (Fit output_dir compute_similar_matrix) s))
       = (cfg s)(''compute_similar_matrix'' \<mapsto> CBool compute_similar_matrix)"
  using run_cfg_other_keys run_cfg_no_fit by (simp add: exec_cfg del: exec.simps)

text \<open>The theorem on an instance built by \<open>__init__\<close>, with and without a call of \<open>fit\<close>.\<close>

theorem config_changed_only_by_fit_witness:
  "cfg (run [Cuda, Fit (Some ''out'') False, Evaluate]
          (AnglE_init ''bert-base-uncased'' 512 None None (Some ''cls'') False [])) ''max_length''
     = Some (CInt 512)
   \<and> cfg (run [Cuda, Evaluate, Encode, SaveConfig ''angle.config'']
          (AnglE_init ''bert-base-uncased'' 512 None None (Some ''cls'') False []))
     = cfg (AnglE_init ''bert-base-uncased'' 512 None None (Some ''cls'') False [])
   \<and> cfg (snd (exec (Fit (Some ''out'') False)
          (AnglE_init ''bert-base-uncased'' 512 None None (Some ''cls'') False [])))
        ''compute_similar_matrix''
     = Some (CBool False)"
proof -
  let ?s = "AnglE_init ''bert-base-uncased'' 512 None None (Some ''cls'') False []"
  note t = config_changed_only_by_fit
  have m: "cfg ?s ''max_length'' = Some (CInt 512)"
    by (simp add: AnglE_init_def init_cfg_def dict_update_def)
  have a: "cfg (run [Cuda, Fit (Some ''out'') False, Evaluate] ?s) ''max_length'' = Some (CInt 512)"
    using t [of "[Cuda, Fit (Some ''out'') False, Evaluate]" ?s] m by simp
  have b: "cfg (run [Cuda, Evaluate, Encode, SaveConfig ''angle.config''] ?s) = cfg ?s"
    using t [of "[Cuda, Evaluate, Encode, SaveConfig ''angle.config'']" ?s] by simp
  have c: "cfg (snd (exec (Fit (Some ''out'') False) ?s)) ''compute_similar_matrix''
             = Some (CBool False)"
    using t [of "[]" ?s "Some ''out''" False] by simp
  show ?thesis using a b c by blast
qed

text \<open>
  Claim C8 as stated fails: after construction the configuration has no key
  \<open>compute_similar_matrix\<close>, and after \<open>fit\<close> it has.
\<close>

theorem config_mutated_by_fit_counterexample:
  "cfg (AnglE_init ''bert-base-uncased'' 512 None None (Some ''cls'') False [])
       ''compute_similar_matrix'' = None
   \<and> cfg (run [Fit (Some ''out'') True]
          (AnglE_init ''bert-base-uncased'' 512 None None (Some ''cls'') False []))
       ''compute_similar_matrix'' = Some (CBool True)"
  by (simp add: AnglE_init_def init_cfg_def dict_update_def)

section \<open>Further properties\<close>

text \<open>
  With labels other than 0 and 1 the index is multiplied by the label itself, and rows that
  are not partners can match: with the labels \<open>[2, 2, 1, 1]\<close>, row 0 matches column 2.
\<close>

lemma make_target_matrix_graded_labels:
  "make_target_matrix 4 [2, 2, 1, 1]
     = Inr [[0, 1, 1, 0], [1, 0, 0, 0], [0, 0, 0, 1], [0, 1, 1, 0]]"
  by (simp add: make_target_matrix_def broadcast_rows_def wrap32_def upt_rec)

text \<open>
  The feature that the tokenization adapter assembles: its \<open>seperate_ids\<close> are as long as
  its \<open>input_ids\<close>; they hold no 1 when text2 has no token (the collator then raises), and
  otherwise the first 1 stands at the length of text1.
\<close>

lemma merge_tok_seperate_ids:
  assumes "merge_tok tok1 tok2 label = Inr f"
  shows "seperate_ids f = replicate (length (input_ids tok1)) 0
                            @ replicate (length (input_ids tok2)) 1"
    and "input_ids f = input_ids tok1 @ input_ids tok2"
    and "length (seperate_ids f) = length (input_ids f)"
    and "labels f = [label]"
  using assms by (auto simp: merge_tok_def split: option.splits sum.splits)

lemma merge_tok_no_text2:
  assumes "merge_tok tok1 tok2 label = Inr f" and "input_ids tok2 = []"
  shows "1 \<notin> set (seperate_ids f)"
  using merge_tok_seperate_ids(1) [OF assms(1)] assms(2) by simp

lemma merge_tok_split_index:
  assumes "merge_tok tok1 tok2 label = Inr f" and "input_ids tok2 \<noteq> []"
  shows "list_index 1 (seperate_ids f) = Some (length (input_ids tok1))"
proof -
  have s: "seperate_ids f = replicate (length (input_ids tok1)) 0
                            @ replicate (length (input_ids tok2)) 1"
    by (rule merge_tok_seperate_ids(1) [OF assms(1)])
  have "length (input_ids tok1) < length (seperate_ids f)"
    using s assms(2) by simp
  moreover have "seperate_ids f ! length (input_ids tok1) = 1"
    using s assms(2) by (simp add: nth_append)
  moreover have "\<forall>j < length (input_ids tok1). seperate_ids f ! j \<noteq> 1"
    using s by (simp add: nth_append)
  ultimately show ?thesis by (simp add: list_index_Some_iff)
qed

end
